theory Spec2Isabelle
  imports Main
begin

section \<open>Values and errors\<close>

text \<open>
  The values that \<open>yaml.safe_load_all\<close> hands to \<open>get_configs\<close> (module
  \<open>dcfuncs/configs.py\<close>): null, booleans, integers, strings, sequences and mappings.
  A Python \<open>dict\<close> keeps its items in insertion order and has no duplicate keys, so a
  mapping is an association list in insertion order; that its keys are distinct is the
  invariant \<open>wf\<close> below. Keys are strings.
\<close>

datatype pyval =
    PNone
  | PBool bool
  | PInt int
  | PStr string
  | PList "pyval list"
  | PDict "(string \<times> pyval) list"

text \<open>The exceptions that can leave \<open>get_configs\<close>.\<close>

datatype error =
    AttributeError
  | TypeError
  | ValueError
  | FileNotFoundError
  | YAMLError
  | SystemExit string

fun is_dict :: "pyval \<Rightarrow> bool" where
  "is_dict (PDict items) = True"
| "is_dict v = False"

text \<open>Every mapping inside a value has distinct keys.\<close>

fun wf :: "pyval \<Rightarrow> bool" where
  "wf (PList xs) = (\<forall>x \<in> set xs. wf x)"
| "wf (PDict items) = (distinct (map fst items) \<and> (\<forall>kv \<in> set items. wf (snd kv)))"
| "wf v = True"

section \<open>Dictionary operations\<close>

text \<open>\<open>d[key] = val\<close> on the items of a dict: an existing key keeps its position, a new
  key goes to the end.\<close>

fun dset :: "(string \<times> 'v) list \<Rightarrow> string \<Rightarrow> 'v \<Rightarrow> (string \<times> 'v) list" where
  "dset [] key val = [(key, val)]"
| "dset ((k, v) # items) key val =
     (if k = key then (k, val) # items else (k, v) # dset items key val)"

text \<open>\<open>obj.copy()\<close>: dicts and lists have the method, the scalars do not.\<close>

fun py_copy :: "pyval \<Rightarrow> error + pyval" where
  "py_copy (PDict items) = Inr (PDict items)"
| "py_copy (PList xs) = Inr (PList xs)"
| "py_copy v = Inl AttributeError"

text \<open>\<open>obj.get(key, default)\<close>: only a dict has the method.\<close>

fun py_get :: "pyval \<Rightarrow> string \<Rightarrow> pyval \<Rightarrow> error + pyval" where
  "py_get (PDict items) key dflt =
     Inr (case map_of items key of None \<Rightarrow> dflt | Some v \<Rightarrow> v)"
| "py_get v key dflt = Inl AttributeError"

text \<open>\<open>obj[key] = val\<close> with a string key: a list takes integer indices only, the scalars
  take no item assignment.\<close>

fun py_setitem :: "pyval \<Rightarrow> string \<Rightarrow> pyval \<Rightarrow> error + pyval" where
  "py_setitem (PDict items) key val = Inr (PDict (dset items key val))"
| "py_setitem v key val = Inl TypeError"

section \<open>The recursive update\<close>

text \<open>
  \<^verbatim>\<open>
  def rupdate(dict1,dict2):
      dict1c = dict1.copy()
      for key,val in dict2.items():
          if isinstance(val,dict):
              dict1c[key] = rupdate(dict1c.get(key,{}),val)
          else:
              dict1c[key] = val
      return dict1c
  \<close>
  \<open>rupdate_loop\<close> is the \<open>for\<close> loop, on the items of \<open>dict2\<close> still to come.
  Only a dict has \<open>items()\<close>; any other \<open>dict2\<close> raises AttributeError there, after
  \<open>dict1.copy()\<close> has been evaluated.
\<close>

fun rupdate :: "pyval \<Rightarrow> pyval \<Rightarrow> error + pyval"
and rupdate_loop :: "pyval \<Rightarrow> (string \<times> pyval) list \<Rightarrow> error + pyval" where
  "rupdate dict1 dict2 =
     (case py_copy dict1 of
        Inl e \<Rightarrow> Inl e
      | Inr dict1c \<Rightarrow>
          (case dict2 of
             PDict items \<Rightarrow> rupdate_loop dict1c items
           | _ \<Rightarrow> Inl AttributeError))"
| "rupdate_loop dict1c [] = Inr dict1c"
| "rupdate_loop dict1c ((key, val) # rest) =
     (if is_dict val then
        (case py_get dict1c key (PDict []) of
           Inl e \<Rightarrow> Inl e
         | Inr sub \<Rightarrow>
             (case rupdate sub val of
                Inl e \<Rightarrow> Inl e
              | Inr r \<Rightarrow>
                  (case py_setitem dict1c key r of
                     Inl e \<Rightarrow> Inl e
                   | Inr d \<Rightarrow> rupdate_loop d rest)))
      else
        (case py_setitem dict1c key val of
           Inl e \<Rightarrow> Inl e
         | Inr d \<Rightarrow> rupdate_loop d rest))"

text \<open>
  \<^verbatim>\<open>
  def finaldict(dicts):
      fd = {}
      for d in dicts:
          fd = rupdate(fd,d)
      return fd
  \<close>
\<close>

fun finaldict_loop :: "pyval \<Rightarrow> pyval list \<Rightarrow> error + pyval" where
  "finaldict_loop fd [] = Inr fd"
| "finaldict_loop fd (d # dicts) =
     (case rupdate fd d of Inl e \<Rightarrow> Inl e | Inr fd' \<Rightarrow> finaldict_loop fd' dicts)"

definition finaldict :: "pyval list \<Rightarrow> error + pyval" where
  "finaldict dicts = finaldict_loop (PDict []) dicts"

section \<open>File names\<close>

text \<open>
  \<open>Path(cfile).with_suffix('.yaml')\<close> is \<open>pathlib\<close>'s, not this repository's. The
  definitions below follow \<open>PurePosixPath\<close> of Python 3.12: the string is split at
  \<open>/\<close>, empty and \<open>.\<close> components are dropped, the name is the last component, its
  suffix starts at its last dot unless that dot is the first or the last character, and
  \<open>with_suffix\<close> replaces the suffix (appends when there is none) and raises ValueError
  when the name is empty.
\<close>

fun split_sep :: "string \<Rightarrow> string list" where
  "split_sep [] = [[]]"
| "split_sep (c # cs) =
     (if c = CHR ''/'' then [] # split_sep cs
      else (case split_sep cs of [] \<Rightarrow> [[c]] | p # ps \<Rightarrow> (c # p) # ps))"

fun join :: "string \<Rightarrow> string list \<Rightarrow> string" where
  "join sep [] = []"
| "join sep [x] = x"
| "join sep (x # y # ys) = x @ sep @ join sep (y # ys)"

record path =
  root :: string
  tail :: "string list"

definition splitroot :: "string \<Rightarrow> string \<times> string" where
  "splitroot p =
     (if take 1 p \<noteq> ''/'' then ([], p)
      else if take 1 (drop 1 p) \<noteq> ''/'' \<or> take 1 (drop 2 p) = ''/'' then (''/'', drop 1 p)
      else (take 2 p, drop 2 p))"

definition Path :: "string \<Rightarrow> path" where
  "Path p =
     (if p = [] then \<lparr>root = [], tail = []\<rparr>
      else (case splitroot p of (r, rel) \<Rightarrow>
        \<lparr>root = r, tail = filter (\<lambda>x. x \<noteq> [] \<and> x \<noteq> ''.'') (split_sep rel)\<rparr>))"

definition name :: "path \<Rightarrow> string" where
  "name p = (if tail p = [] then [] else last (tail p))"

text \<open>\<open>s.rfind('.')\<close>, \<open>None\<close> for Python's \<open>-1\<close>.\<close>

definition rfind_dot :: "string \<Rightarrow> nat option" where
  "rfind_dot s =
     (if CHR ''.'' \<in> set s
      then Some (length s - 1 - length (takeWhile (\<lambda>c. c \<noteq> CHR ''.'') (rev s)))
      else None)"

definition suffix :: "path \<Rightarrow> string" where
  "suffix p =
     (case rfind_dot (name p) of
        None \<Rightarrow> []
      | Some i \<Rightarrow> if 0 < i \<and> i + 1 < length (name p) then drop i (name p) else [])"

definition with_suffix :: "path \<Rightarrow> string \<Rightarrow> error + path" where
  "with_suffix p sfx =
     (if CHR ''/'' \<in> set sfx then Inl ValueError
      else if (sfx \<noteq> [] \<and> take 1 sfx \<noteq> ''.'') \<or> sfx = ''.'' then Inl ValueError
      else if name p = [] then Inl ValueError
      else
        (let old_suffix = suffix p;
             nm = (if old_suffix = [] then name p @ sfx
                   else take (length (name p) - length old_suffix) (name p) @ sfx)
         in Inr (p\<lparr>tail := butlast (tail p) @ [nm]\<rparr>)))"

text \<open>\<open>str(path)\<close>.\<close>

definition str_path :: "path \<Rightarrow> string" where
  "str_path p =
     (let s = (if root p \<noteq> [] then root p @ join ''/'' (tail p) else join ''/'' (tail p))
      in if s = [] then ''.'' else s)"

section \<open>Collaborators outside the module\<close>

text \<open>
  What \<open>get_configs\<close> takes from outside: \<open>load_all\<close> is
  \<open>open(file)\<close> followed by \<open>[*yaml.safe_load_all(strm)]\<close> for the file of a given
  path (FileNotFoundError when it is missing, YAMLError when it does not parse, the list of
  its documents otherwise); \<open>str_val\<close> and \<open>str_types\<close> are Python's \<open>str\<close> of a value
  and of the list \<open>types\<close> inside the printed lines.
\<close>

record env =
  load_all :: "string \<Rightarrow> error + pyval list"
  str_val :: "pyval \<Rightarrow> string"
  str_types :: "string list \<Rightarrow> string"

text \<open>\<open>str(n)\<close> of a non-negative integer.\<close>

fun str_nat :: "nat \<Rightarrow> string" where
  "str_nat n =
     (if n < 10 then [char_of (48 + n)]
      else str_nat (n div 10) @ [char_of (48 + n mod 10)])"

declare str_nat.simps [simp del]

definition PREFIX :: string where
  "PREFIX = ''- ''"

text \<open>
  \<open>zz\<close> of \<open>dcfuncs/util.py\<close>: the printed lines and the outcome.
  \<^verbatim>\<open>
  def zz(source,msg,warn=False):
      if warn:
          print(PREFIX + f'WARNING from {source} - {msg}')
          return
      zzmsg = PREFIX + f'ERROR from {source} - {msg}'
      raise SystemExit(zzmsg)
  \<close>
\<close>

definition zz :: "string \<Rightarrow> string \<Rightarrow> bool \<Rightarrow> string list \<times> (error + unit)" where
  "zz source msg warn =
     (if warn then ([PREFIX @ ''WARNING from '' @ source @ '' - '' @ msg], Inr ())
      else ([], Inl (SystemExit (PREFIX @ ''ERROR from '' @ source @ '' - '' @ msg))))"

section \<open>Combinations\<close>

text \<open>
  \<open>itertools.product(*fdicts)\<close>, as the Python documentation defines it:
  \<^verbatim>\<open>
  result = [[]]
  for pool in pools:
      result = [x+[y] for x in result for y in pool]
  \<close>
\<close>

definition product_step :: "'a list list \<Rightarrow> 'a list \<Rightarrow> 'a list list" where
  "product_step result pool = concat (map (\<lambda>x. map (\<lambda>y. x @ [y]) pool) result)"

definition itertools_product :: "'a list list \<Rightarrow> 'a list list" where
  "itertools_product pools = foldl product_step [[]] pools"

text \<open>A list comprehension whose element expression can raise: the first exception leaves
  it.\<close>

fun mapM :: "('a \<Rightarrow> error + 'b) \<Rightarrow> 'a list \<Rightarrow> error + 'b list" where
  "mapM f [] = Inr []"
| "mapM f (x # xs) =
     (case f x of
        Inl e \<Rightarrow> Inl e
      | Inr y \<Rightarrow> (case mapM f xs of Inl e \<Rightarrow> Inl e | Inr ys \<Rightarrow> Inr (y # ys)))"

section \<open>get_configs\<close>

text \<open>
  \<open>types\<close> is a list of strings, as in the module's own call
  \<open>get_configs(cfiles=['test0','test1'],types=['test-configs'])\<close>. For such a list,
  \<open>x in types\<close> holds exactly when \<open>x\<close> is a string equal to one of its elements.
\<close>

fun in_types :: "pyval \<Rightarrow> string list \<Rightarrow> bool" where
  "in_types (PStr s) types = (s \<in> set types)"
| "in_types v types = False"

text \<open>
  \<^verbatim>\<open>
  for cdict in cdicts:
      if not cdict.get('type') in types:
          dutil.zz('getconfigs','Config file does not have type'
             f' in allowed types {types}.')
  \<close>
\<close>

fun check_types :: "env \<Rightarrow> string list \<Rightarrow> pyval list \<Rightarrow> string list \<times> (error + unit)" where
  "check_types E types [] = ([], Inr ())"
| "check_types E types (cdict # rest) =
     (case py_get cdict ''type'' PNone of
        Inl e \<Rightarrow> ([], Inl e)
      | Inr t \<Rightarrow>
          if \<not> in_types t types then
            (case zz ''getconfigs''
                    (''Config file does not have type in allowed types '' @ str_types E types @ ''.'')
                    False of
               (out, Inl e) \<Rightarrow> (out, Inl e)
             | (out, Inr u) \<Rightarrow>
                 (case check_types E types rest of (out', r) \<Rightarrow> (out @ out', r)))
          else check_types E types rest)"

text \<open>\<open>files = [Path(cfile).with_suffix('.yaml') for cfile in cfiles]\<close>\<close>

definition yaml_files :: "string list \<Rightarrow> error + path list" where
  "yaml_files cfiles = mapM (\<lambda>cfile. with_suffix (Path cfile) ''.yaml'') cfiles"

text \<open>
  \<^verbatim>\<open>
  fdicts = []
  for file in files:
      with open(file) as strm:
          fdicts.append([*yaml.safe_load_all(strm)])
  \<close>
\<close>

definition read_files :: "env \<Rightarrow> path list \<Rightarrow> error + pyval list list" where
  "read_files E files = mapM (\<lambda>file. load_all E (str_path file)) files"

text \<open>\<open>cdicts = [finaldict(combo) for combo in itertools.product(*fdicts)]\<close>\<close>

definition make_cdicts :: "pyval list list \<Rightarrow> error + pyval list" where
  "make_cdicts fdicts = mapM finaldict (itertools_product fdicts)"

text \<open>
  The lines printed for \<open>verbose\<close>:
  \<^verbatim>\<open>
  nd = len(cdicts)
  if verbose>=1:
      filestrs = [str(file) for file in files]
      print(PREFIX + f'Read {nd} config(s) from {" << ".join(filestrs)}')
  if verbose>=2:
      for ic,c in enumerate(cdicts):
          print(PREFIX + f'CONFIG {ic+1}/{nd}:\n{c}')
  \<close>
\<close>

definition report :: "env \<Rightarrow> path list \<Rightarrow> pyval list \<Rightarrow> int \<Rightarrow> string list" where
  "report E files cdicts verbose =
     (let nd = length cdicts in
      (if verbose \<ge> 1
       then [PREFIX @ ''Read '' @ str_nat nd @ '' config(s) from ''
               @ join '' << '' (map str_path files)]
       else [])
      @
      (if verbose \<ge> 2
       then map (\<lambda>(ic, c). PREFIX @ ''CONFIG '' @ str_nat (ic + 1) @ ''/'' @ str_nat nd
                   @ '':'' @ [CHR 0x0A] @ str_val E c)
              (enumerate 0 cdicts)
       else []))"

text \<open>
  \<open>get_configs(cfiles,types,verbose)\<close>: the lines it prints and what it returns or
  raises. An exception before the \<open>print\<close> statements leaves nothing printed.
\<close>

definition get_configs ::
  "env \<Rightarrow> string list \<Rightarrow> string list \<Rightarrow> int \<Rightarrow> string list \<times> (error + pyval list)" where
  "get_configs E cfiles types verbose =
     (case yaml_files cfiles of
        Inl e \<Rightarrow> ([], Inl e)
      | Inr files \<Rightarrow>
     (case read_files E files of
        Inl e \<Rightarrow> ([], Inl e)
      | Inr fdicts \<Rightarrow>
     (case make_cdicts fdicts of
        Inl e \<Rightarrow> ([], Inl e)
      | Inr cdicts \<Rightarrow>
          (let out = report E files cdicts verbose in
           if types \<noteq> [] then
             (case check_types E types cdicts of
                (out', Inl e) \<Rightarrow> (out @ out', Inl e)
              | (out', Inr u) \<Rightarrow> (out @ out', Inr cdicts))
           else (out, Inr cdicts)))))"

section \<open>Objects and references\<close>

text \<open>
  Python's dicts and lists are objects, and a value that holds one holds a reference to
  it. For what \<open>rupdate\<close> and \<open>finaldict\<close> allocate, overwrite and share, the store is
  explicit: a heap is the list of the objects allocated so far, an address is an index
  into it, and allocation appends. Scalars are immutable and are held by value.
\<close>

type_synonym addr = nat

datatype hval = HNone | HBool bool | HInt int | HStr string | HRef addr

datatype obj = ODict "(string \<times> hval) list" | OList "hval list"

type_synonym heap = "obj list"

definition deref :: "heap \<Rightarrow> hval \<Rightarrow> obj option" where
  "deref h v = (case v of HRef a \<Rightarrow> if a < length h then Some (h ! a) else None | _ \<Rightarrow> None)"

text \<open>\<open>isinstance(val,dict)\<close>\<close>

definition h_is_dict :: "heap \<Rightarrow> hval \<Rightarrow> bool" where
  "h_is_dict h v = (case deref h v of Some (ODict items) \<Rightarrow> True | _ \<Rightarrow> False)"

definition alloc :: "heap \<Rightarrow> obj \<Rightarrow> hval \<times> heap" where
  "alloc h ob = (HRef (length h), h @ [ob])"

text \<open>\<open>dict1.copy()\<close>: a new object with the same items (a shallow copy).\<close>

definition h_copy :: "heap \<Rightarrow> hval \<Rightarrow> (error + hval) \<times> heap" where
  "h_copy h v =
     (case deref h v of
        None \<Rightarrow> (Inl AttributeError, h)
      | Some ob \<Rightarrow> (case alloc h ob of (r, h') \<Rightarrow> (Inr r, h')))"

text \<open>\<open>dict2.items()\<close>\<close>

definition h_items :: "heap \<Rightarrow> hval \<Rightarrow> error + (string \<times> hval) list" where
  "h_items h v = (case deref h v of Some (ODict items) \<Rightarrow> Inr items | _ \<Rightarrow> Inl AttributeError)"

text \<open>\<open>dict1c.get(key,{})\<close>: the attribute \<open>get\<close> is looked up first, then the argument
  \<open>{}\<close> allocates a new empty dict, whether the key is present or not.\<close>

definition h_get_or_new :: "heap \<Rightarrow> hval \<Rightarrow> string \<Rightarrow> (error + hval) \<times> heap" where
  "h_get_or_new h d key =
     (case deref h d of
        Some (ODict items) \<Rightarrow>
          (case alloc h (ODict []) of (dflt, h') \<Rightarrow>
             (Inr (case map_of items key of None \<Rightarrow> dflt | Some v \<Rightarrow> v), h'))
      | _ \<Rightarrow> (Inl AttributeError, h))"

text \<open>\<open>dict1c[key] = val\<close>: the object at the address is overwritten in place.\<close>

definition h_setitem :: "heap \<Rightarrow> hval \<Rightarrow> string \<Rightarrow> hval \<Rightarrow> error + heap" where
  "h_setitem h d key val =
     (case d of
        HRef a \<Rightarrow>
          (case deref h d of
             Some (ODict items) \<Rightarrow> Inr (h[a := ODict (dset items key val)])
           | _ \<Rightarrow> Inl TypeError)
      | _ \<Rightarrow> Inl TypeError)"

text \<open>
  \<open>rupdate\<close> on the heap, statement by statement as above. The first argument bounds the
  depth of the recursion (Python's own recursion limit); \<open>None\<close> is that bound reached.
  The loop runs over the items \<open>dict2\<close> has when the loop starts; the loop body writes to
  \<open>dict1c\<close> only, which is a new object.
\<close>

fun h_rupdate :: "nat \<Rightarrow> heap \<Rightarrow> hval \<Rightarrow> hval \<Rightarrow> ((error + hval) \<times> heap) option"
and h_rupdate_loop ::
  "nat \<Rightarrow> heap \<Rightarrow> hval \<Rightarrow> (string \<times> hval) list \<Rightarrow> ((error + hval) \<times> heap) option" where
  "h_rupdate 0 h dict1 dict2 = None"
| "h_rupdate (Suc n) h dict1 dict2 =
     (case h_copy h dict1 of
        (Inl e, h1) \<Rightarrow> Some (Inl e, h1)
      | (Inr dict1c, h1) \<Rightarrow>
          (case h_items h1 dict2 of
             Inl e \<Rightarrow> Some (Inl e, h1)
           | Inr items \<Rightarrow> h_rupdate_loop n h1 dict1c items))"
| "h_rupdate_loop n h dict1c [] = Some (Inr dict1c, h)"
| "h_rupdate_loop n h dict1c ((key, val) # rest) =
     (if h_is_dict h val then
        (case h_get_or_new h dict1c key of
           (Inl e, h1) \<Rightarrow> Some (Inl e, h1)
         | (Inr sub, h1) \<Rightarrow>
             (case h_rupdate n h1 sub val of
                None \<Rightarrow> None
              | Some (Inl e, h2) \<Rightarrow> Some (Inl e, h2)
              | Some (Inr r, h2) \<Rightarrow>
                  (case h_setitem h2 dict1c key r of
                     Inl e \<Rightarrow> Some (Inl e, h2)
                   | Inr h3 \<Rightarrow> h_rupdate_loop n h3 dict1c rest)))
      else
        (case h_setitem h dict1c key val of
           Inl e \<Rightarrow> Some (Inl e, h)
         | Inr h1 \<Rightarrow> h_rupdate_loop n h1 dict1c rest))"

text \<open>\<open>finaldict\<close> on the heap: \<open>fd = {}\<close> allocates, each \<open>rupdate\<close> returns the next
  \<open>fd\<close>.\<close>

fun h_finaldict_loop ::
  "nat \<Rightarrow> heap \<Rightarrow> hval \<Rightarrow> hval list \<Rightarrow> ((error + hval) \<times> heap) option" where
  "h_finaldict_loop n h fd [] = Some (Inr fd, h)"
| "h_finaldict_loop n h fd (d # dicts) =
     (case h_rupdate n h fd d of
        None \<Rightarrow> None
      | Some (Inl e, h1) \<Rightarrow> Some (Inl e, h1)
      | Some (Inr fd', h1) \<Rightarrow> h_finaldict_loop n h1 fd' dicts)"

definition h_finaldict :: "nat \<Rightarrow> heap \<Rightarrow> hval list \<Rightarrow> ((error + hval) \<times> heap) option" where
  "h_finaldict n h dicts =
     (case alloc h (ODict []) of (fd, h1) \<Rightarrow> h_finaldict_loop n h1 fd dicts)"

text \<open>The list comprehension \<open>[finaldict(combo) for combo in ...]\<close> on the heap: the
  combinations are tuples of references to the documents, and each call of \<open>finaldict\<close>
  runs on the heap the calls before it have left.\<close>

fun h_cdicts ::
  "nat \<Rightarrow> heap \<Rightarrow> hval list list \<Rightarrow> ((error + hval list) \<times> heap) option" where
  "h_cdicts n h [] = Some (Inr [], h)"
| "h_cdicts n h (combo # combos) =
     (case h_finaldict n h combo of
        None \<Rightarrow> None
      | Some (Inl e, h1) \<Rightarrow> Some (Inl e, h1)
      | Some (Inr fd, h1) \<Rightarrow>
          (case h_cdicts n h1 combos of
             None \<Rightarrow> None
           | Some (Inl e, h2) \<Rightarrow> Some (Inl e, h2)
           | Some (Inr fds, h2) \<Rightarrow> Some (Inr (fd # fds), h2)))"

section \<open>Notions used in the statements\<close>

subsection \<open>Merging\<close>

text \<open>The value of the base at a key, the empty mapping when the key is absent.\<close>

definition base_at :: "(string \<times> pyval) list \<Rightarrow> string \<Rightarrow> pyval" where
  "base_at acc k = (case map_of acc k of None \<Rightarrow> PDict [] | Some s \<Rightarrow> s)"

text \<open>
  What the result \<open>ritems\<close> of updating \<open>acc\<close> by \<open>items\<close> holds at key \<open>k\<close>: the base's
  entry when the override has none, the override's value when that is not a mapping,
  and the recursive update of the base's value by the override's when it is.
\<close>

definition merged_at ::
  "(string \<times> pyval) list \<Rightarrow> (string \<times> pyval) list \<Rightarrow> (string \<times> pyval) list \<Rightarrow> string \<Rightarrow> bool" where
  "merged_at acc items ritems k =
     (case map_of items k of
        None \<Rightarrow> map_of ritems k = map_of acc k
      | Some v \<Rightarrow>
          if is_dict v then (\<exists>r'. map_of ritems k = Some r' \<and> rupdate (base_at acc k) v = Inr r')
          else map_of ritems k = Some v)"


subsection \<open>Order of the combinations\<close>


subsection \<open>Type tags\<close>

text \<open>A configuration whose value at key \<open>type\<close> is one of the allowed types.\<close>

definition allowed :: "string list \<Rightarrow> pyval \<Rightarrow> bool" where
  "allowed types c =
     (case c of
        PDict items \<Rightarrow>
          (case map_of items ''type'' of Some (PStr s) \<Rightarrow> s \<in> set types | _ \<Rightarrow> False)
      | _ \<Rightarrow> False)"

text \<open>The \<open>SystemExit\<close> that \<open>zz\<close> raises for \<open>get_configs\<close>.\<close>

definition type_error :: "env \<Rightarrow> string list \<Rightarrow> error" where
  "type_error E types =
     SystemExit (''- ERROR from getconfigs - Config file does not have type in allowed types ''
                 @ str_types E types @ ''.'')"

subsection \<open>Heaps\<close>

text \<open>\<open>frame m h h'\<close>: the heap has only grown, and every object below address \<open>m\<close> is as
  it was. With \<open>m = length h\<close> no object of \<open>h\<close> has been written to.\<close>

definition frame :: "nat \<Rightarrow> heap \<Rightarrow> heap \<Rightarrow> bool" where
  "frame m h h' = (length h \<le> length h' \<and> (\<forall>a < m. h' ! a = h ! a))"

text \<open>
  \<open>own S h v\<close>: every mapping that \<open>v\<close> reaches through the values of mappings alone
  lies at an address in \<open>S\<close>, and no reference on the way dangles. Sequences are
  leaves: what they hold is not looked at.
\<close>

inductive own :: "addr set \<Rightarrow> heap \<Rightarrow> hval \<Rightarrow> bool" for S :: "addr set" and h :: heap where
  own_scalar: "(\<And>a. v \<noteq> HRef a) \<Longrightarrow> own S h v"
| own_list: "a < length h \<Longrightarrow> h ! a = OList xs \<Longrightarrow> own S h (HRef a)"
| own_dict: "a \<in> S \<Longrightarrow> a < length h \<Longrightarrow> h ! a = ODict items \<Longrightarrow>
     (\<forall>kv \<in> set items. own S h (snd kv)) \<Longrightarrow> own S h (HRef a)"

text \<open>\<open>stable S h h'\<close>: the heap has grown, and an object of \<open>h\<close> that differs in \<open>h'\<close> is
  a mapping outside \<open>S\<close>.\<close>

definition stable :: "addr set \<Rightarrow> heap \<Rightarrow> heap \<Rightarrow> bool" where
  "stable S h h' = (length h \<le> length h' \<and>
     (\<forall>x < length h. h' ! x = h ! x \<or> (x \<notin> S \<and> (\<exists>i. h ! x = ODict i))))"


text \<open>
  \<open>fits n h v\<close>: \<open>v\<close> is a finite tree of mappings in \<open>h\<close>, without dangling references,
  whose nesting is less than \<open>n\<close> deep. A document that \<open>yaml.safe_load_all\<close> returns
  without recursive aliases fits for some \<open>n\<close>.
\<close>

fun fits :: "nat \<Rightarrow> heap \<Rightarrow> hval \<Rightarrow> bool" where
  "fits 0 h v = False"
| "fits (Suc n) h v =
     (case v of
        HRef a \<Rightarrow> a < length h \<and>
          (case h ! a of ODict items \<Rightarrow> (\<forall>kv \<in> set items. fits n h (snd kv)) | OList xs \<Rightarrow> True)
      | _ \<Rightarrow> True)"


subsection \<open>Heap values and the values they stand for\<close>

text \<open>
  \<open>repr S h v t\<close>: in the heap \<open>h\<close> the value \<open>v\<close> is the tree \<open>t\<close>, and every mapping
  of it lies at an address in \<open>S\<close>. Items correspond in order, key by key.
\<close>

inductive repr :: "addr set \<Rightarrow> heap \<Rightarrow> hval \<Rightarrow> pyval \<Rightarrow> bool" for S :: "addr set" and h :: heap where
  repr_none: "repr S h HNone PNone"
| repr_bool: "repr S h (HBool b) (PBool b)"
| repr_int: "repr S h (HInt i) (PInt i)"
| repr_str: "repr S h (HStr s) (PStr s)"
| repr_list: "a < length h \<Longrightarrow> h ! a = OList xs \<Longrightarrow> list_all2 (repr S h) xs ts \<Longrightarrow>
     repr S h (HRef a) (PList ts)"
| repr_dict: "a \<in> S \<Longrightarrow> a < length h \<Longrightarrow> h ! a = ODict items \<Longrightarrow>
     list_all2 (\<lambda>kv kt. fst kv = fst kt \<and> repr S h (snd kv) (snd kt)) items titems \<Longrightarrow>
     repr S h (HRef a) (PDict titems)"

text \<open>The items of a mapping on the heap and the items they stand for.\<close>

definition items_repr ::
  "addr set \<Rightarrow> heap \<Rightarrow> (string \<times> hval) list \<Rightarrow> (string \<times> pyval) list \<Rightarrow> bool" where
  "items_repr S h items titems =
     list_all2 (\<lambda>kv kt. fst kv = fst kt \<and> repr S h (snd kv) (snd kt)) items titems"

text \<open>The object at address \<open>a\<close> stands for \<open>tc\<close>, its values within \<open>S\<close>.\<close>

definition crepr :: "addr set \<Rightarrow> heap \<Rightarrow> addr \<Rightarrow> pyval \<Rightarrow> bool" where
  "crepr S h a tc =
     (case h ! a of
        ODict ic \<Rightarrow> (\<exists>tic. tc = PDict tic \<and> items_repr S h ic tic)
      | OList xs \<Rightarrow> (\<exists>ts. tc = PList ts \<and> list_all2 (repr S h) xs ts))"

text \<open>
  The outcome of a run on the heap matches the outcome on trees: the same exception,
  or a value that stands for the tree returned.
\<close>

definition matches :: "addr set \<Rightarrow> heap \<Rightarrow> error + hval \<Rightarrow> error + pyval \<Rightarrow> bool" where
  "matches S h res pure =
     (case pure of Inl e \<Rightarrow> res = Inl e | Inr t \<Rightarrow> (\<exists>r. res = Inr r \<and> repr S h r t))"

definition lmatches :: "addr set \<Rightarrow> heap \<Rightarrow> error + hval list \<Rightarrow> error + pyval list \<Rightarrow> bool" where
  "lmatches S h res pure =
     (case pure of
        Inl e \<Rightarrow> res = Inl e
      | Inr ts \<Rightarrow> (\<exists>rs. res = Inr rs \<and> list_all2 (repr S h) rs ts))"

section \<open>A worked example\<close>

text \<open>
  File \<open>base.yaml\<close> holds one document, \<open>{a: 1, b: {x: 1, y: 2}, type: svc}\<close>; file
  \<open>override.yaml\<close> holds two, \<open>{b: {y: 9}}\<close> and \<open>{b: {y: 9}, type: other}\<close>; file
  \<open>single.yaml\<close> holds the first of these alone, and file \<open>none.yaml\<close> holds no
  document. No other file exists.
\<close>

definition demo_base :: pyval where
  "demo_base =
     PDict [(''a'', PInt 1), (''b'', PDict [(''x'', PInt 1), (''y'', PInt 2)]),
            (''type'', PStr ''svc'')]"

definition demo_over1 :: pyval where
  "demo_over1 = PDict [(''b'', PDict [(''y'', PInt 9)])]"

definition demo_over2 :: pyval where
  "demo_over2 = PDict [(''b'', PDict [(''y'', PInt 9)]), (''type'', PStr ''other'')]"

definition demo_env :: env where
  "demo_env =
     \<lparr>load_all = (\<lambda>p.
        if p = ''base.yaml'' then Inr [demo_base]
        else if p = ''override.yaml'' then Inr [demo_over1, demo_over2]
        else if p = ''single.yaml'' then Inr [demo_over1]
        else if p = ''none.yaml'' then Inr []
        else Inl FileNotFoundError),
      str_val = (\<lambda>v. []),
      str_types = (\<lambda>ts. [])\<rparr>"

text \<open>The two configurations that \<open>base\<close> and \<open>override\<close> resolve to.\<close>

definition demo_cfg1 :: pyval where
  "demo_cfg1 =
     PDict [(''a'', PInt 1), (''b'', PDict [(''x'', PInt 1), (''y'', PInt 9)]),
            (''type'', PStr ''svc'')]"

definition demo_cfg2 :: pyval where
  "demo_cfg2 =
     PDict [(''a'', PInt 1), (''b'', PDict [(''x'', PInt 1), (''y'', PInt 9)]),
            (''type'', PStr ''other'')]"



section \<open>Properties of the recursive update and of the combinations\<close>

declare rupdate.simps [simp del]

lemma map_of_dset: "map_of (dset items k v) = (map_of items)(k \<mapsto> v)"
  by (induction items k v rule: dset.induct) auto

lemma dset_new: "k \<notin> fst ` set items \<Longrightarrow> dset items k v = items @ [(k, v)]"
  by (induction items k v rule: dset.induct) auto

lemma keys_dset_old: "k \<in> fst ` set items \<Longrightarrow> map fst (dset items k v) = map fst items"
  by (induction items k v rule: dset.induct) auto

lemma rupdate_empty_aux:
  "(dict1 = PDict [] \<longrightarrow> is_dict dict2 \<longrightarrow> wf dict2 \<longrightarrow> rupdate dict1 dict2 = Inr dict2)"
  "(\<forall>acc. dict1c = PDict acc \<longrightarrow> distinct (map fst (acc @ items)) \<longrightarrow> (\<forall>kv \<in> set items. wf (snd kv))
      \<longrightarrow> rupdate_loop dict1c items = Inr (PDict (acc @ items)))"
proof (induction dict1 dict2 and dict1c items rule: rupdate_rupdate_loop.induct)
  case (1 dict1 dict2)
  show ?case
  proof (intro impI)
    assume a: "dict1 = PDict []" "is_dict dict2" "wf dict2"
    from a(2) obtain items where d2: "dict2 = PDict items" by (cases dict2) auto
    have "rupdate_loop (PDict []) items = Inr (PDict ([] @ items))"
      using 1[of "PDict []" items] a d2 by simp
    then show "rupdate dict1 dict2 = Inr dict2" using a d2 by (simp add: rupdate.simps)
  qed
next
  case (2 dict1c)
  show ?case by simp
next
  case (3 dict1c key val rest)
  show ?case
  proof (intro allI impI)
    fix acc
    assume a: "dict1c = PDict acc" "distinct (map fst (acc @ (key, val) # rest))"
       "\<forall>kv\<in>set ((key, val) # rest). wf (snd kv)"
    have knew: "key \<notin> fst ` set acc" using a(2) by auto
    then have mo: "map_of acc key = None" by (simp add: map_of_eq_None_iff)
    have ds: "dset acc key v = acc @ [(key, v)]" for v using knew by (rule dset_new)
    have dist: "distinct (map fst ((acc @ [(key, val)]) @ rest))" using a(2) by simp
    have wfr: "\<forall>kv\<in>set rest. wf (snd kv)" using a(3) by simp
    show "rupdate_loop dict1c ((key, val) # rest) = Inr (PDict (acc @ (key, val) # rest))"
    proof (cases "is_dict val")
      case True
      have g: "py_get dict1c key (PDict []) = Inr (PDict [])" using a(1) mo by simp
      have r: "rupdate (PDict []) val = Inr val"
        using 3(1)[OF True g] True a(3) by simp
      have s: "py_setitem dict1c key val = Inr (PDict (acc @ [(key, val)]))"
        using a(1) ds by simp
      have "rupdate_loop (PDict (acc @ [(key, val)])) rest = Inr (PDict ((acc @ [(key, val)]) @ rest))"
        using 3(2)[OF True g r s] dist wfr by blast
      then show ?thesis using True g r s by simp
    next
      case False
      have s: "py_setitem dict1c key val = Inr (PDict (acc @ [(key, val)]))"
        using a(1) ds by simp
      have "rupdate_loop (PDict (acc @ [(key, val)])) rest = Inr (PDict ((acc @ [(key, val)]) @ rest))"
        using 3(3)[OF False s] dist wfr by blast
      then show ?thesis using False s by simp
    qed
  qed
qed

lemma rupdate_empty: "is_dict d \<Longrightarrow> wf d \<Longrightarrow> rupdate (PDict []) d = Inr d"
  using rupdate_empty_aux(1)[of "PDict []" d] by simp

lemma finaldict_two: "is_dict d1 \<Longrightarrow> wf d1 \<Longrightarrow> finaldict [d1, d2] = rupdate d1 d2"
  by (simp add: finaldict_def rupdate_empty split: sum.splits)

lemma rupdate_loop_lookup:
  "rupdate_loop (PDict acc) items = Inr r \<Longrightarrow> distinct (map fst items) \<Longrightarrow>
     \<exists>ritems. r = PDict ritems \<and> (\<forall>k. merged_at acc items ritems k)"
proof (induction items arbitrary: acc)
  case Nil
  then show ?case by (auto simp: merged_at_def)
next
  case (Cons kv rest)
  obtain key val where kv: "kv = (key, val)" by (cases kv)
  have nk: "map_of rest key = None" using Cons.prems(2) kv by (simp add: map_of_eq_None_iff)
  have dr: "distinct (map fst rest)" using Cons.prems(2) by simp
  show ?case
  proof (cases "is_dict val")
    case True
    from Cons.prems(1) kv True obtain r0 where
      r0: "rupdate (base_at acc key) val = Inr r0" and
      lp: "rupdate_loop (PDict (dset acc key r0)) rest = Inr r"
      by (auto simp: base_at_def split: sum.splits)
    from Cons.IH[OF lp dr] obtain ritems where
      ri: "r = PDict ritems" and m: "\<forall>k. merged_at (dset acc key r0) rest ritems k" by blast
    have "merged_at acc (kv # rest) ritems k" for k
      using m[rule_format, of k] nk r0 True kv
      by (auto simp: merged_at_def map_of_dset base_at_def split: option.splits if_splits)
    with ri show ?thesis by blast
  next
    case False
    from Cons.prems(1) kv False have
      lp: "rupdate_loop (PDict (dset acc key val)) rest = Inr r"
      by (auto split: sum.splits)
    from Cons.IH[OF lp dr] obtain ritems where
      ri: "r = PDict ritems" and m: "\<forall>k. merged_at (dset acc key val) rest ritems k" by blast
    have "merged_at acc (kv # rest) ritems k" for k
      using m[rule_format, of k] nk False kv
      by (auto simp: merged_at_def map_of_dset base_at_def split: option.splits if_splits)
    with ri show ?thesis by blast
  qed
qed

lemma product_step_append:
  "product_step (map (\<lambda>ys. x @ ys) rs) pool = concat (map (\<lambda>ys. map (\<lambda>y. x @ ys @ [y]) pool) rs)"
  by (simp add: product_step_def comp_def)














lemma rupdate_loop_is_dict: "rupdate_loop (PDict acc) items = Inr r \<Longrightarrow> is_dict r"
proof (induction items arbitrary: acc)
  case Nil
  then show ?case by auto
next
  case (Cons kv rest)
  obtain key val where kv: "kv = (key, val)" by (cases kv)
  show ?case using Cons.prems Cons.IH kv
    by (auto split: if_splits sum.splits)
qed

lemma rupdate_is_dict: "rupdate (PDict a) d = Inr r \<Longrightarrow> is_dict r"
  by (auto simp: rupdate.simps split: pyval.splits dest: rupdate_loop_is_dict)

lemma finaldict_loop_is_dict: "finaldict_loop fd ds = Inr r \<Longrightarrow> is_dict fd \<Longrightarrow> is_dict r"
proof (induction ds arbitrary: fd)
  case Nil
  then show ?case by simp
next
  case (Cons d ds)
  from Cons.prems(2) obtain a where fd: "fd = PDict a" by (cases fd) auto
  from Cons.prems(1) obtain fd' where r: "rupdate fd d = Inr fd'" and l: "finaldict_loop fd' ds = Inr r"
    by (auto split: sum.splits)
  have "is_dict fd'" using r fd rupdate_is_dict by blast
  then show ?case using Cons.IH l by blast
qed

lemma finaldict_is_dict: "finaldict ds = Inr r \<Longrightarrow> is_dict r"
  using finaldict_loop_is_dict[of "PDict []" ds r] by (simp add: finaldict_def)

lemma mapM_Inr_all: "mapM f xs = Inr ys \<Longrightarrow> y \<in> set ys \<Longrightarrow> \<exists>x \<in> set xs. f x = Inr y"
  by (induction xs arbitrary: ys) (auto split: sum.splits)

lemma make_cdicts_is_dict: "make_cdicts fdicts = Inr cdicts \<Longrightarrow> c \<in> set cdicts \<Longrightarrow> is_dict c"
proof -
  assume a: "make_cdicts fdicts = Inr cdicts" and c: "c \<in> set cdicts"
  from mapM_Inr_all[OF a[unfolded make_cdicts_def] c] obtain combo where "finaldict combo = Inr c"
    by blast
  then show ?thesis by (rule finaldict_is_dict)
qed




lemma allowedD:
  "allowed types c \<Longrightarrow> \<exists>items s. c = PDict items \<and> map_of items ''type'' = Some (PStr s) \<and> s \<in> set types"
proof -
  assume a: "allowed types c"
  then obtain items where c: "c = PDict items" by (cases c) (simp_all add: allowed_def)
  from a c obtain v where v: "map_of items ''type'' = Some v"
    by (cases "map_of items ''type''") (simp_all add: allowed_def)
  from a c v obtain s where "v = PStr s" "s \<in> set types" by (cases v) (simp_all add: allowed_def)
  then show ?thesis using c v by blast
qed

lemma check_types_ok:
  "\<forall>c \<in> set cdicts. allowed types c \<Longrightarrow> check_types E types cdicts = ([], Inr ())"
proof (induction cdicts)
  case Nil
  show ?case by simp
next
  case (Cons c cs)
  then have "allowed types c" by simp
  then obtain items s where c: "c = PDict items" and t: "map_of items ''type'' = Some (PStr s)"
    and s: "s \<in> set types"
    using allowedD by blast
  show ?case using Cons c t s by simp
qed

lemma check_types_first_bad:
  "\<forall>c \<in> set pre. allowed types c \<Longrightarrow> is_dict c \<Longrightarrow> \<not> allowed types c \<Longrightarrow>
     check_types E types (pre @ c # post) = ([], Inl (type_error E types))"
proof (induction pre)
  case Nil
  from Nil(2) obtain items where c: "c = PDict items" by (cases c) auto
  have "\<not> in_types (case map_of items ''type'' of None \<Rightarrow> PNone | Some v \<Rightarrow> v) types"
    using Nil(3) c by (auto simp: allowed_def split: option.splits pyval.splits)
  then show ?case using c by (simp add: zz_def type_error_def PREFIX_def)
next
  case (Cons p pre)
  then have "allowed types p" by simp
  then obtain items s where p: "p = PDict items" and t: "map_of items ''type'' = Some (PStr s)"
    and s: "s \<in> set types"
    using allowedD by blast
  show ?case using Cons p t s by simp
qed

lemma get_configs_unfold:
  "yaml_files cfiles = Inr files \<Longrightarrow> read_files E files = Inr fdicts \<Longrightarrow>
   make_cdicts fdicts = Inr cdicts \<Longrightarrow>
   get_configs E cfiles types verbose =
     (if types \<noteq> [] then
        (case check_types E types cdicts of
           (out', Inl e) \<Rightarrow> (report E files cdicts verbose @ out', Inl e)
         | (out', Inr u) \<Rightarrow> (report E files cdicts verbose @ out', Inr cdicts))
      else (report E files cdicts verbose, Inr cdicts))"
  by (simp add: get_configs_def Let_def)

lemma get_configs_unfold_err:
  "yaml_files cfiles = Inr files \<Longrightarrow> read_files E files = Inr fdicts \<Longrightarrow>
   make_cdicts fdicts = Inl e \<Longrightarrow> get_configs E cfiles types verbose = ([], Inl e)"
  by (simp add: get_configs_def)

lemma get_configs_Inr_cdicts:
  assumes "yaml_files cfiles = Inr files" "read_files E files = Inr fdicts"
    "snd (get_configs E cfiles types verbose) = Inr cdicts"
  shows "make_cdicts fdicts = Inr cdicts"
proof (cases "make_cdicts fdicts")
  case (Inl e)
  then show ?thesis using assms get_configs_unfold_err[OF assms(1,2) Inl] by simp
next
  case (Inr cds)
  obtain out r where ct: "check_types E types cds = (out, r)" by (cases "check_types E types cds")
  show ?thesis
    using assms(3) get_configs_unfold[OF assms(1,2) Inr, of types verbose] ct Inr
    by (cases r; cases "types = []") simp_all
qed

lemma get_configs_verbose_aux:
  "snd (get_configs E cfiles types v1) = snd (get_configs E cfiles types v2)"
proof (cases "yaml_files cfiles")
  case (Inl e)
  then show ?thesis by (simp add: get_configs_def)
next
  case files: (Inr files)
  show ?thesis
  proof (cases "read_files E files")
    case (Inl e)
    then show ?thesis using files by (simp add: get_configs_def)
  next
    case fdicts: (Inr fdicts)
    show ?thesis
    proof (cases "make_cdicts fdicts")
      case (Inl e)
      then show ?thesis using get_configs_unfold_err[OF files fdicts Inl] by simp
    next
      case (Inr cds)
      obtain out r where ct: "check_types E types cds = (out, r)" by (cases "check_types E types cds")
      show ?thesis
        using get_configs_unfold[OF files fdicts Inr, of types] ct
        by (cases r; cases "types = []") simp_all
    qed
  qed
qed

text \<open>
  An override that holds a mapping at a key where the base holds a value that is not a
  mapping: the recursive call is made on the base's value. A scalar has no \<open>copy\<close>; a
  list has one, and survives when the override's mapping is empty.
\<close>

lemma rupdate_scalar_under_mapping:
  "py_copy s = Inl e \<Longrightarrow> rupdate (PDict [(k, s)]) (PDict [(k, PDict b)]) = Inl e"
  by (simp add: rupdate.simps)

lemma rupdate_list_under_empty_mapping:
  "rupdate (PDict [(k, PList xs)]) (PDict [(k, PDict [])]) = Inr (PDict [(k, PList xs)])"
  by (simp add: rupdate.simps)

lemma rupdate_list_under_mapping:
  "rupdate (PDict [(k, PList xs)]) (PDict [(k, PDict ((k', v) # b))])
     = Inl (if is_dict v then AttributeError else TypeError)"
  by (simp add: rupdate.simps)

text \<open>A file name without directory and without dot gets \<open>.yaml\<close> appended.\<close>

lemma split_sep_plain: "CHR ''/'' \<notin> set s \<Longrightarrow> split_sep s = [s]"
  by (induction s) auto

lemma rfind_dot_none: "CHR ''.'' \<notin> set s \<Longrightarrow> rfind_dot s = None"
  by (simp add: rfind_dot_def)

lemma yaml_files_plain:
  assumes "cfile \<noteq> []" and "CHR ''/'' \<notin> set cfile" and "CHR ''.'' \<notin> set cfile"
  shows "map_sum id (map str_path) (yaml_files [cfile]) = Inr [cfile @ ''.yaml'']"
proof -
  have r: "splitroot cfile = ([], cfile)"
    using assms(1,2) by (cases cfile) (auto simp: splitroot_def)
  have nd: "cfile \<noteq> ''.''" using assms(3) by auto
  have p: "Path cfile = \<lparr>root = [], tail = [cfile]\<rparr>"
    using assms(1) r nd by (simp add: Path_def split_sep_plain[OF assms(2)])
  have s: "suffix (Path cfile) = []"
    by (simp add: p suffix_def name_def rfind_dot_none[OF assms(3)])
  have "with_suffix (Path cfile) ''.yaml'' = Inr \<lparr>root = [], tail = [cfile @ ''.yaml'']\<rparr>"
    using assms(1) s by (simp add: with_suffix_def p name_def)
  then show ?thesis by (simp add: yaml_files_def str_path_def)
qed

section \<open>Properties of the update on the heap\<close>

lemma frame_refl: "frame m h h" by (simp add: frame_def)

lemma frame_trans: "frame m h h1 \<Longrightarrow> frame m h1 h2 \<Longrightarrow> frame m h h2"
  by (auto simp: frame_def)

lemma frame_weaken: "frame m h h' \<Longrightarrow> m' \<le> m \<Longrightarrow> frame m' h h'"
  by (auto simp: frame_def)

lemma frame_alloc: "alloc h ob = (r, h') \<Longrightarrow> frame (length h) h h' \<and> r = HRef (length h) \<and> length h' = Suc (length h)"
  by (auto simp: alloc_def frame_def nth_append)

lemma h_copy_frame:
  "h_copy h v = (res, h') \<Longrightarrow> frame (length h) h h' \<and>
     (\<forall>r. res = Inr r \<longrightarrow> r = HRef (length h) \<and> length h' = Suc (length h))"
  by (auto simp: h_copy_def alloc_def frame_def nth_append split: option.splits)

lemma h_get_or_new_frame:
  "h_get_or_new h d key = (res, h') \<Longrightarrow> frame (length h) h h'"
  by (auto simp: h_get_or_new_def alloc_def frame_def nth_append split: option.splits obj.splits)

lemma h_setitem_frame:
  "h_setitem h (HRef c) key val = Inr h' \<Longrightarrow> m \<le> c \<Longrightarrow> frame m h h'"
  by (auto simp: h_setitem_def frame_def split: option.splits obj.splits)

lemma h_setitem_ref: "h_setitem h d key val = Inr h' \<Longrightarrow> \<exists>c. d = HRef c \<and> c < length h"
  by (auto simp: h_setitem_def deref_def split: hval.splits option.splits obj.splits if_splits)

lemma h_rupdate_SucE:
  assumes "h_rupdate (Suc n) h dict1 dict2 = Some (res, h')"
  obtains (copy_err) e where "h_copy h dict1 = (Inl e, h')" "res = Inl e"
  | (items_err) dict1c e where "h_copy h dict1 = (Inr dict1c, h')" "h_items h' dict2 = Inl e" "res = Inl e"
  | (loop) dict1c h1 items where "h_copy h dict1 = (Inr dict1c, h1)" "h_items h1 dict2 = Inr items"
      "h_rupdate_loop n h1 dict1c items = Some (res, h')"
  using assms by (auto split: prod.splits sum.splits)

lemma h_rupdate_loop_ConsE:
  assumes "h_rupdate_loop n h dict1c ((key, val) # rest) = Some (res, h')"
  obtains (get_err) e where "h_is_dict h val" "h_get_or_new h dict1c key = (Inl e, h')" "res = Inl e"
  | (rec_err) sub h1 e where "h_is_dict h val" "h_get_or_new h dict1c key = (Inr sub, h1)"
      "h_rupdate n h1 sub val = Some (Inl e, h')" "res = Inl e"
  | (set_err) sub h1 r e where "h_is_dict h val" "h_get_or_new h dict1c key = (Inr sub, h1)"
      "h_rupdate n h1 sub val = Some (Inr r, h')" "h_setitem h' dict1c key r = Inl e" "res = Inl e"
  | (rec_ok) sub h1 r h2 h3 where "h_is_dict h val" "h_get_or_new h dict1c key = (Inr sub, h1)"
      "h_rupdate n h1 sub val = Some (Inr r, h2)" "h_setitem h2 dict1c key r = Inr h3"
      "h_rupdate_loop n h3 dict1c rest = Some (res, h')"
  | (plain_err) e where "\<not> h_is_dict h val" "h_setitem h dict1c key val = Inl e" "res = Inl e" "h' = h"
  | (plain_ok) h1 where "\<not> h_is_dict h val" "h_setitem h dict1c key val = Inr h1"
      "h_rupdate_loop n h1 dict1c rest = Some (res, h')"
  using assms by (auto split: prod.splits sum.splits option.splits if_splits)

declare h_rupdate.simps [simp del] h_rupdate_loop.simps(2) [simp del]

lemma h_get_or_new_ok:
  "h_get_or_new h d key = (Inr sub, h1) \<Longrightarrow>
     \<exists>a items. d = HRef a \<and> a < length h \<and> h ! a = ODict items \<and> h1 = h @ [ODict []] \<and>
        sub = (case map_of items key of None \<Rightarrow> HRef (length h) | Some v \<Rightarrow> v)"
  by (auto simp: h_get_or_new_def deref_def alloc_def split: hval.splits option.splits obj.splits if_splits)

lemma h_get_or_new_err: "h_get_or_new h d key = (Inl e, h1) \<Longrightarrow> h1 = h"
  by (auto simp: h_get_or_new_def alloc_def split: option.splits obj.splits)

lemma h_rupdate_frame_aux:
  "\<forall>res h'. h_rupdate n h dict1 dict2 = Some (res, h') \<longrightarrow>
      frame (length h) h h' \<and> (\<forall>r. res = Inr r \<longrightarrow> (\<exists>a. r = HRef a \<and> length h \<le> a \<and> a < length h'))"
  "\<forall>res h' m c. h_rupdate_loop n h dict1c items = Some (res, h') \<longrightarrow> dict1c = HRef c \<longrightarrow> m \<le> c \<longrightarrow> c < length h \<longrightarrow>
      frame m h h' \<and> (\<forall>r. res = Inr r \<longrightarrow> r = dict1c)"
proof (induction n h dict1 dict2 and n h dict1c items rule: h_rupdate_h_rupdate_loop.induct)
  case (1 h dict1 dict2)
  show ?case by (simp add: h_rupdate.simps)
next
  case (2 n h dict1 dict2)
  show ?case
  proof (intro allI impI)
    fix res h'
    assume run: "h_rupdate (Suc n) h dict1 dict2 = Some (res, h')"
    from run show "frame (length h) h h' \<and> (\<forall>r. res = Inr r \<longrightarrow> (\<exists>a. r = HRef a \<and> length h \<le> a \<and> a < length h'))"
    proof (cases rule: h_rupdate_SucE)
      case (copy_err e)
      then show ?thesis using h_copy_frame[OF copy_err(1)] by simp
    next
      case (items_err dict1c e)
      then show ?thesis using h_copy_frame[OF items_err(1)] by simp
    next
      case (loop dict1c h1 items)
      note cf = h_copy_frame[OF loop(1)]
      have c: "dict1c = HRef (length h)" and l1: "length h1 = Suc (length h)" using cf by auto
      have "frame (length h) h1 h' \<and> (\<forall>r. res = Inr r \<longrightarrow> r = dict1c)"
        using 2[OF loop(1)[symmetric] refl loop(2), rule_format, OF loop(3) c order_refl] l1 by simp
      then have f: "frame (length h) h1 h'" and r: "\<forall>r. res = Inr r \<longrightarrow> r = dict1c" by auto
      have "frame (length h) h h'" using cf f frame_trans by blast
      moreover have "length h < length h'" using f l1 by (simp add: frame_def)
      ultimately show ?thesis using r c by auto
    qed
  qed
next
  case (3 n h dict1c)
  show ?case by (simp add: frame_refl)
next
  case (4 n h dict1c key val rest)
  show ?case
  proof (intro allI impI)
    fix res h' m c
    assume run: "h_rupdate_loop n h dict1c ((key, val) # rest) = Some (res, h')"
      and c: "dict1c = HRef c" and m: "m \<le> c" and cl: "c < length h"
    from run show "frame m h h' \<and> (\<forall>r. res = Inr r \<longrightarrow> r = dict1c)"
    proof (cases rule: h_rupdate_loop_ConsE)
      case (get_err e)
      then show ?thesis using h_get_or_new_err[OF get_err(2)] by (simp add: frame_refl)
    next
      case (rec_err sub h1 e)
      have f1: "frame (length h) h h1" using h_get_or_new_frame[OF rec_err(2)] .
      have f2: "frame (length h1) h1 h'"
        using 4(1)[OF rec_err(1) rec_err(2)[symmetric] refl] rec_err(3) by simp
      have "length h \<le> length h1" using f1 by (simp add: frame_def)
      then have "frame m h h1" "frame m h1 h'" using f1 f2 m cl by (auto intro: frame_weaken)
      then show ?thesis using rec_err(4) frame_trans by blast
    next
      case (set_err sub h1 r e)
      have f1: "frame (length h) h h1" using h_get_or_new_frame[OF set_err(2)] .
      have f2: "frame (length h1) h1 h'"
        using 4(1)[OF set_err(1) set_err(2)[symmetric] refl] set_err(3) by simp
      have "length h \<le> length h1" using f1 by (simp add: frame_def)
      then have "frame m h h1" "frame m h1 h'" using f1 f2 m cl by (auto intro: frame_weaken)
      then show ?thesis using set_err(5) frame_trans by blast
    next
      case (rec_ok sub h1 r h2 h3)
      have f1: "frame (length h) h h1" using h_get_or_new_frame[OF rec_ok(2)] .
      have f2: "frame (length h1) h1 h2"
        using 4(1)[OF rec_ok(1) rec_ok(2)[symmetric] refl] rec_ok(3) by simp
      have l1: "length h \<le> length h1" using f1 by (simp add: frame_def)
      have l2: "length h1 \<le> length h2" using f2 by (simp add: frame_def)
      have fm: "frame m h h1" "frame m h1 h2" using f1 f2 m cl l1 by (auto intro: frame_weaken)
      have f3: "frame m h2 h3" using h_setitem_frame rec_ok(4) c m by blast
      have l3: "length h2 \<le> length h3" using f3 by (simp add: frame_def)
      have "frame m h3 h' \<and> (\<forall>r. res = Inr r \<longrightarrow> r = dict1c)"
        using 4(2)[OF rec_ok(1) rec_ok(2)[symmetric] refl rec_ok(3) refl refl rec_ok(4), rule_format,
            OF rec_ok(5) c m] cl l1 l2 l3 by simp
      then show ?thesis using fm f3 frame_trans by blast
    next
      case (plain_err e)
      then show ?thesis by (simp add: frame_refl)
    next
      case (plain_ok h1)
      have f1: "frame m h h1" using h_setitem_frame plain_ok(2) c m by blast
      have l1: "length h \<le> length h1" using f1 by (simp add: frame_def)
      have "frame m h1 h' \<and> (\<forall>r. res = Inr r \<longrightarrow> r = dict1c)"
        using 4(3)[OF plain_ok(1) plain_ok(2), rule_format, OF plain_ok(3) c m] cl l1 by simp
      then show ?thesis using f1 frame_trans by blast
    qed
  qed
qed


lemma own_stable: "own S h v \<Longrightarrow> stable S h h' \<Longrightarrow> own S h' v"
proof (induction rule: own.induct)
  case (own_scalar v)
  then show ?case by (auto intro: own.own_scalar)
next
  case (own_list a xs)
  then have "a < length h'" "h' ! a = OList xs" by (auto simp: stable_def)
  then show ?case by (rule own.own_list)
next
  case (own_dict a items)
  then have "a < length h'" "h' ! a = ODict items" by (auto simp: stable_def)
  then show ?case using own_dict by (auto intro: own.own_dict)
qed

lemma frame_stable: "frame (length h) h h' \<Longrightarrow> stable S h h'"
  by (auto simp: frame_def stable_def)

lemma stable_trans: "stable S h h1 \<Longrightarrow> stable S h1 h2 \<Longrightarrow> stable S h h2"
  unfolding stable_def by (metis le_trans less_le_trans)




lemma h_setitem_ok:
  "h_setitem h d key val = Inr h' \<Longrightarrow>
     \<exists>a ic. d = HRef a \<and> a < length h \<and> h ! a = ODict ic \<and> h' = h[a := ODict (dset ic key val)]"
  by (auto simp: h_setitem_def deref_def split: hval.splits option.splits obj.splits if_splits)

lemma h_copy_ok:
  "h_copy h v = (Inr c, h1) \<Longrightarrow> \<exists>a. v = HRef a \<and> a < length h \<and> c = HRef (length h) \<and> h1 = h @ [h ! a]"
  by (auto simp: h_copy_def deref_def alloc_def split: hval.splits option.splits if_splits)

lemma own_dict_items:
  "own S h (HRef a) \<Longrightarrow> h ! a = ODict items \<Longrightarrow> kv \<in> set items \<Longrightarrow> own S h (snd kv)"
  by (erule own.cases) auto


lemma own_dict_in: "own S h (HRef a) \<Longrightarrow> h ! a = ODict items \<Longrightarrow> a \<in> S"
  by (erule own.cases) auto

lemma stable_alloc: "stable S h (h @ [ob])"
  by (auto simp: stable_def nth_append)

lemma stable_setitem:
  "a \<notin> S \<Longrightarrow> h ! a = ODict ic \<Longrightarrow> stable S h (h[a := ob])"
  unfolding stable_def
proof (intro conjI allI impI)
  show "length h \<le> length (h[a := ob])" by simp
next
  fix x assume a: "a \<notin> S" "h ! a = ODict ic" "x < length h"
  show "h[a := ob] ! x = h ! x \<or> (x \<notin> S \<and> (\<exists>i. h ! x = ODict i))"
    using a by (cases "x = a") auto
qed



lemma fits_own: "fits n h v \<Longrightarrow> own {..<length h} h v"
proof (induction n arbitrary: v)
  case 0
  then show ?case by simp
next
  case (Suc n)
  show ?case
  proof (cases v)
    case (HRef a)
    then have a: "a < length h" using Suc.prems by simp
    show ?thesis
    proof (cases "h ! a")
      case (ODict items)
      then have "\<forall>kv \<in> set items. own {..<length h} h (snd kv)"
        using Suc.prems HRef Suc.IH by auto
      then show ?thesis using own_dict[of a "{..<length h}" h items] a ODict HRef by simp
    next
      case (OList xs)
      then show ?thesis using own_list[of a h xs] a HRef by simp
    qed
  qed (auto intro: own_scalar)
qed

lemma fits_stable: "fits n h v \<Longrightarrow> own S h v \<Longrightarrow> stable S h h' \<Longrightarrow> fits n h' v"
proof (induction n arbitrary: v)
  case 0
  then show ?case by simp
next
  case (Suc n)
  show ?case
  proof (cases v)
    case (HRef a)
    then have a: "a < length h" using Suc.prems by simp
    then have a': "a < length h'" using Suc.prems(3) by (simp add: stable_def)
    show ?thesis
    proof (cases "h ! a")
      case (ODict items)
      have "a \<in> S" using own_dict_in Suc.prems(2) HRef ODict by blast
      then have eq: "h' ! a = ODict items" using Suc.prems(3) a ODict by (auto simp: stable_def)
      have "\<forall>kv \<in> set items. fits n h' (snd kv)"
      proof
        fix kv assume kv: "kv \<in> set items"
        have "fits n h (snd kv)" using Suc.prems(1) HRef ODict kv by simp
        moreover have "own S h (snd kv)" using own_dict_items Suc.prems(2) HRef ODict kv by blast
        ultimately show "fits n h' (snd kv)" using Suc.IH Suc.prems(3) by blast
      qed
      then show ?thesis using HRef a' eq by simp
    next
      case (OList xs)
      then have "h' ! a = OList xs" using Suc.prems(3) a by (auto simp: stable_def)
      then show ?thesis using HRef a' by simp
    qed
  qed simp_all
qed

lemma fits_dict_items:
  "fits (Suc n) h (HRef a) \<Longrightarrow> h ! a = ODict items \<Longrightarrow> kv \<in> set items \<Longrightarrow> fits n h (snd kv)"
  by simp

lemma h_rupdate_fuel_aux:
  "fits n h dict2 \<longrightarrow> h_rupdate n h dict1 dict2 \<noteq> None"
  "\<forall>a m. dict1c = HRef a \<longrightarrow> m \<le> a \<longrightarrow> a < length h \<longrightarrow>
      (\<forall>kv \<in> set items. fits n h (snd kv) \<and> own {..<m} h (snd kv)) \<longrightarrow>
      h_rupdate_loop n h dict1c items \<noteq> None"
proof (induction n h dict1 dict2 and n h dict1c items rule: h_rupdate_h_rupdate_loop.induct)
  case (1 h dict1 dict2)
  show ?case by simp
next
  case (2 n h dict1 dict2)
  show ?case
  proof
    assume f: "fits (Suc n) h dict2"
    obtain cres h1 where cp: "h_copy h dict1 = (cres, h1)" by (cases "h_copy h dict1")
    show "h_rupdate (Suc n) h dict1 dict2 \<noteq> None"
    proof (cases cres)
      case (Inl e)
      then show ?thesis using cp by (simp add: h_rupdate.simps)
    next
      case (Inr dict1c)
      from h_copy_ok[OF cp[unfolded Inr]] obtain a1 where
        c: "dict1c = HRef (length h)" and h1: "h1 = h @ [h ! a1]" by blast
      have st: "stable T h h1" for T using h1 by (simp add: stable_alloc)
      show ?thesis
      proof (cases "h_items h1 dict2")
        case (Inl e)
        then show ?thesis using cp \<open>cres = Inr dict1c\<close> by (simp add: h_rupdate.simps)
      next
        case (Inr items)
        then obtain a2 where d2: "dict2 = HRef a2" and i2: "h1 ! a2 = ODict items"
          by (auto simp: h_items_def deref_def split: hval.splits option.splits obj.splits if_splits)
        have a2h: "a2 < length h" using f d2 by simp
        have i2h: "h ! a2 = ODict items" using i2 a2h h1 by (simp add: nth_append)
        have it: "\<forall>kv \<in> set items. fits n h1 (snd kv) \<and> own {..<length h} h1 (snd kv)"
        proof
          fix kv assume kv: "kv \<in> set items"
          have fk: "fits n h (snd kv)" using f d2 i2h kv by simp
          have ok: "own {..<length h} h (snd kv)" using fk by (rule fits_own)
          show "fits n h1 (snd kv) \<and> own {..<length h} h1 (snd kv)"
            using fits_stable[OF fk ok st] own_stable[OF ok st] by simp
        qed
        have "h_rupdate_loop n h1 dict1c items \<noteq> None"
          using 2[OF cp[symmetric] \<open>cres = Inr dict1c\<close> Inr, rule_format, OF c order_refl _ it[rule_format]] h1
          by simp
        then show ?thesis using cp \<open>cres = Inr dict1c\<close> Inr by (simp add: h_rupdate.simps)
      qed
    qed
  qed
next
  case (3 n h dict1c)
  show ?case by simp
next
  case (4 n h dict1c key val rest)
  show ?case
  proof (intro allI impI)
    fix a m
    assume c: "dict1c = HRef a" and m: "m \<le> a" and al: "a < length h"
      and it: "\<forall>kv \<in> set ((key, val) # rest). fits n h (snd kv) \<and> own {..<m} h (snd kv)"
    have fv: "fits n h val" and ov: "own {..<m} h val" using it by auto
    have nm: "a \<notin> {..<m}" using m by simp
    show "h_rupdate_loop n h dict1c ((key, val) # rest) \<noteq> None"
    proof (cases "h_is_dict h val")
      case True
      obtain gres h1 where g: "h_get_or_new h dict1c key = (gres, h1)"
        by (cases "h_get_or_new h dict1c key")
      show ?thesis
      proof (cases gres)
        case (Inl e)
        then show ?thesis using True g by (simp add: h_rupdate_loop.simps)
      next
        case (Inr sub)
        from h_get_or_new_ok[OF g[unfolded Inr]] have h1: "h1 = h @ [ODict []]" by blast
        have st1: "stable T h h1" for T using h1 by (simp add: stable_alloc)
        have fv1: "fits n h1 val" using fits_stable[OF fv ov st1] .
        have nn: "h_rupdate n h1 sub val \<noteq> None"
          using 4(1)[OF True g[symmetric] Inr] fv1 by simp
        then obtain rres h2 where rr: "h_rupdate n h1 sub val = Some (rres, h2)" by auto
        have f2: "frame (length h1) h1 h2"
          using h_rupdate_frame_aux(1)[rule_format, OF rr] by simp
        have st2: "stable T h1 h2" for T using f2 by (rule frame_stable)
        show ?thesis
        proof (cases rres)
          case (Inl e)
          then show ?thesis using True g \<open>gres = Inr sub\<close> rr by (simp add: h_rupdate_loop.simps)
        next
          case (Inr r)
          show ?thesis
          proof (cases "h_setitem h2 dict1c key r")
            case (Inl e)
            then show ?thesis using True g \<open>gres = Inr sub\<close> rr \<open>rres = Inr r\<close>
              by (simp add: h_rupdate_loop.simps)
          next
            case (Inr h3)
            from h_setitem_ok[OF Inr] c obtain ic2 where
              ic2: "h2 ! a = ODict ic2" and h3: "h3 = h2[a := ODict (dset ic2 key r)]" by auto
            have st3: "stable {..<m} h2 h3" using stable_setitem[OF nm ic2] h3 by simp
            have al3: "a < length h3" using al h1 f2 h3 by (simp add: frame_def)
            have it3: "\<forall>kv \<in> set rest. fits n h3 (snd kv) \<and> own {..<m} h3 (snd kv)"
            proof
              fix kv assume kv: "kv \<in> set rest"
              have fk: "fits n h (snd kv)" and ok: "own {..<m} h (snd kv)" using it kv by auto
              have s: "stable {..<m} h h3" using st1 st2 st3 stable_trans by blast
              show "fits n h3 (snd kv) \<and> own {..<m} h3 (snd kv)"
                using fits_stable[OF fk ok s] own_stable[OF ok s] by simp
            qed
            have "h_rupdate_loop n h3 dict1c rest \<noteq> None"
              using 4(2)[OF True g[symmetric] \<open>gres = Inr sub\<close> rr refl \<open>rres = Inr r\<close> Inr, rule_format,
                  OF c m al3 it3[rule_format]] .
            then show ?thesis using True g \<open>gres = Inr sub\<close> rr \<open>rres = Inr r\<close> Inr
              by (simp add: h_rupdate_loop.simps)
          qed
        qed
      qed
    next
      case False
      show ?thesis
      proof (cases "h_setitem h dict1c key val")
        case (Inl e)
        then show ?thesis using False by (simp add: h_rupdate_loop.simps)
      next
        case (Inr h1)
        from h_setitem_ok[OF Inr] c obtain ic where
          ic: "h ! a = ODict ic" and h1: "h1 = h[a := ODict (dset ic key val)]" by auto
        have st: "stable {..<m} h h1" using stable_setitem[OF nm ic] h1 by simp
        have al1: "a < length h1" using al h1 by simp
        have it1: "\<forall>kv \<in> set rest. fits n h1 (snd kv) \<and> own {..<m} h1 (snd kv)"
        proof
          fix kv assume kv: "kv \<in> set rest"
          have fk: "fits n h (snd kv)" and ok: "own {..<m} h (snd kv)" using it kv by auto
          show "fits n h1 (snd kv) \<and> own {..<m} h1 (snd kv)"
            using fits_stable[OF fk ok st] own_stable[OF ok st] by simp
        qed
        have "h_rupdate_loop n h1 dict1c rest \<noteq> None"
          using 4(3)[OF False Inr, rule_format, OF c m al1 it1[rule_format]] .
        then show ?thesis using False Inr by (simp add: h_rupdate_loop.simps)
      qed
    qed
  qed
qed

lemma h_rupdate_frame:
  "h_rupdate n h d1 d2 = Some (res, h') \<Longrightarrow> frame (length h) h h'"
  using h_rupdate_frame_aux(1) by blast



lemma h_rupdate_fuel: "fits n h d2 \<Longrightarrow> \<exists>res h'. h_rupdate n h d1 d2 = Some (res, h')"
  using h_rupdate_fuel_aux(1)[of n h d2 d1] by auto

lemma frame_full_trans:
  "frame (length h) h h1 \<Longrightarrow> frame (length h1) h1 h2 \<Longrightarrow> frame (length h) h h2"
  by (auto simp: frame_def)

lemma h_finaldict_loop_frame:
  "h_finaldict_loop n h fd ds = Some (res, h') \<Longrightarrow> frame (length h) h h'"
proof (induction ds arbitrary: h fd)
  case Nil
  then show ?case by (simp add: frame_refl)
next
  case (Cons d ds)
  from Cons.prems obtain rres h1 where rr: "h_rupdate n h fd d = Some (rres, h1)"
    by (auto split: option.splits)
  have f1: "frame (length h) h h1" using h_rupdate_frame[OF rr] .
  show ?case
  proof (cases rres)
    case (Inl e)
    then show ?thesis using Cons.prems rr f1 by simp
  next
    case (Inr fd')
    then have "h_finaldict_loop n h1 fd' ds = Some (res, h')" using Cons.prems rr by simp
    then have "frame (length h1) h1 h'" by (rule Cons.IH)
    then show ?thesis using f1 frame_full_trans by blast
  qed
qed


lemma h_finaldict_frame:
  "h_finaldict n h ds = Some (res, h') \<Longrightarrow> frame (length h) h h' \<and> length h < length h'"
proof -
  assume a: "h_finaldict n h ds = Some (res, h')"
  then have lp: "h_finaldict_loop n (h @ [ODict []]) (HRef (length h)) ds = Some (res, h')"
    by (simp add: h_finaldict_def alloc_def)
  have f: "frame (length (h @ [ODict []])) (h @ [ODict []]) h'" using h_finaldict_loop_frame[OF lp] .
  then show ?thesis by (auto simp: frame_def nth_append)
qed


lemma h_finaldict_loop_fuel:
  "\<forall>d \<in> set ds. fits n h d \<Longrightarrow> \<exists>res h'. h_finaldict_loop n h fd ds = Some (res, h')"
proof (induction ds arbitrary: h fd)
  case Nil
  then show ?case by simp
next
  case (Cons d ds)
  from h_rupdate_fuel[of n h d fd] Cons.prems obtain rres h1 where
    rr: "h_rupdate n h fd d = Some (rres, h1)" by auto
  have f1: "frame (length h) h h1" using h_rupdate_frame[OF rr] .
  show ?case
  proof (cases rres)
    case (Inl e)
    then show ?thesis using rr by simp
  next
    case (Inr fd')
    have "\<forall>d \<in> set ds. fits n h1 d"
      using Cons.prems fits_stable fits_own frame_stable[OF f1] by (metis list.set_intros(2))
    from Cons.IH[OF this, of fd'] show ?thesis using rr Inr by simp
  qed
qed

lemma h_finaldict_fuel:
  "\<forall>d \<in> set ds. fits n h d \<Longrightarrow> \<exists>res h'. h_finaldict n h ds = Some (res, h')"
proof -
  assume a: "\<forall>d \<in> set ds. fits n h d"
  have "\<forall>d \<in> set ds. fits n (h @ [ODict []]) d"
    using a fits_stable fits_own stable_alloc by blast
  from h_finaldict_loop_fuel[OF this] show ?thesis by (simp add: h_finaldict_def alloc_def)
qed


lemma h_cdicts_frame:
  "h_cdicts n h combos = Some (res, h') \<Longrightarrow> frame (length h) h h'"
proof (induction combos arbitrary: h res)
  case Nil
  then show ?case by (simp add: frame_refl)
next
  case (Cons combo combos)
  from Cons.prems obtain r1 h1 where fdr: "h_finaldict n h combo = Some (r1, h1)"
    by (auto split: option.splits)
  have f1: "frame (length h) h h1" using h_finaldict_frame[OF fdr] by simp
  show ?case
  proof (cases r1)
    case (Inl e)
    then show ?thesis using Cons.prems fdr f1 by simp
  next
    case (Inr fd)
    from Cons.prems fdr Inr obtain r2 where "h_cdicts n h1 combos = Some (r2, h')"
      by (auto split: option.splits sum.splits prod.splits)
    then have "frame (length h1) h1 h'" by (rule Cons.IH)
    then show ?thesis using f1 frame_full_trans by blast
  qed
qed


lemma h_cdicts_fuel:
  "\<forall>combo \<in> set combos. \<forall>d \<in> set combo. fits n h d \<Longrightarrow>
     \<exists>res h'. h_cdicts n h combos = Some (res, h')"
proof (induction combos arbitrary: h)
  case Nil
  then show ?case by simp
next
  case (Cons combo combos)
  have "\<forall>d \<in> set combo. fits n h d" using Cons.prems by simp
  from h_finaldict_fuel[OF this] obtain r1 h1 where fdr: "h_finaldict n h combo = Some (r1, h1)"
    by blast
  have f1: "frame (length h) h h1" using h_finaldict_frame[OF fdr] by simp
  show ?case
  proof (cases r1)
    case (Inl e)
    then show ?thesis using fdr by simp
  next
    case (Inr fd)
    have "\<forall>combo \<in> set combos. \<forall>d \<in> set combo. fits n h1 d"
    proof (intro ballI)
      fix c d assume "c \<in> set combos" "d \<in> set c"
      then have "fits n h d" using Cons.prems by simp
      then show "fits n h1 d" using fits_stable fits_own frame_stable[OF f1] by blast
    qed
    from Cons.IH[OF this] obtain r2 h2 where "h_cdicts n h1 combos = Some (r2, h2)" by blast
    then show ?thesis using fdr Inr by (cases r2) auto
  qed
qed

section \<open>The update on the heap computes the update on trees\<close>

lemma repr_mono: "repr S h v t \<Longrightarrow> S \<subseteq> T \<Longrightarrow> repr T h v t"
proof (induction rule: repr.induct)
  case (repr_list a xs ts)
  have "list_all2 (repr T h) xs ts"
    using repr_list(3,4) by (auto elim!: list_all2_mono)
  then show ?case using repr_list(1,2) by (auto intro: repr.repr_list)
next
  case (repr_dict a items titems)
  have "list_all2 (\<lambda>kv kt. fst kv = fst kt \<and> repr T h (snd kv) (snd kt)) items titems"
    using repr_dict(4,5) by (auto elim!: list_all2_mono)
  then show ?case using repr_dict(1,2,3,5) by (auto intro: repr.repr_dict)
qed (auto intro: repr.intros)

lemma repr_stable: "repr S h v t \<Longrightarrow> stable S h h' \<Longrightarrow> repr S h' v t"
proof (induction rule: repr.induct)
  case (repr_list a xs ts)
  have l: "list_all2 (repr S h') xs ts"
    using repr_list(3,4) by (auto elim!: list_all2_mono)
  have "a < length h'" "h' ! a = OList xs" using repr_list(1,2,4) by (auto simp: stable_def)
  then show ?case using l by (auto intro: repr.repr_list)
next
  case (repr_dict a items titems)
  have l: "list_all2 (\<lambda>kv kt. fst kv = fst kt \<and> repr S h' (snd kv) (snd kt)) items titems"
    using repr_dict(4,5) by (auto elim!: list_all2_mono)
  have "a < length h'" "h' ! a = ODict items" using repr_dict(1,2,3,5) by (auto simp: stable_def)
  then show ?case using l repr_dict(1) by (auto intro: repr.repr_dict)
qed (auto intro: repr.intros)

lemma items_repr_mono: "items_repr S h ic tic \<Longrightarrow> S \<subseteq> T \<Longrightarrow> items_repr T h ic tic"
  unfolding items_repr_def by (auto elim!: list_all2_mono intro: repr_mono)

lemma items_repr_stable: "items_repr S h ic tic \<Longrightarrow> stable S h h' \<Longrightarrow> items_repr S h' ic tic"
  unfolding items_repr_def by (auto elim!: list_all2_mono intro: repr_stable)

lemma list_repr_mono: "list_all2 (repr S h) xs ts \<Longrightarrow> S \<subseteq> T \<Longrightarrow> list_all2 (repr T h) xs ts"
  by (auto elim!: list_all2_mono intro: repr_mono)

lemma list_repr_stable: "list_all2 (repr S h) xs ts \<Longrightarrow> stable S h h' \<Longrightarrow> list_all2 (repr S h') xs ts"
  by (auto elim!: list_all2_mono intro: repr_stable)

lemma repr_is_dict: "repr S h v t \<Longrightarrow> h_is_dict h v = is_dict t"
  by (erule repr.cases) (auto simp: h_is_dict_def deref_def)

lemma repr_ref_dict:
  "repr S h (HRef a) t \<Longrightarrow> h ! a = ODict ic \<Longrightarrow> \<exists>tic. t = PDict tic \<and> items_repr S h ic tic \<and> a \<in> S"
  by (erule repr.cases) (auto simp: items_repr_def)

lemma repr_ref_list:
  "repr S h (HRef a) t \<Longrightarrow> h ! a = OList xs \<Longrightarrow> \<exists>ts. t = PList ts \<and> list_all2 (repr S h) xs ts"
  by (erule repr.cases) auto

lemma repr_ref_valid: "repr S h (HRef a) t \<Longrightarrow> a < length h"
  by (erule repr.cases) auto

lemma repr_scalar_copy: "repr S h v t \<Longrightarrow> deref h v = None \<Longrightarrow> py_copy t = Inl AttributeError"
  by (erule repr.cases) (auto simp: deref_def)

lemma repr_ref_copy: "repr S h (HRef a) t \<Longrightarrow> py_copy t = Inr t"
  by (erule repr.cases) auto

lemma items_repr_map_of:
  "items_repr S h ic tic \<Longrightarrow>
     (case map_of ic k of
        None \<Rightarrow> map_of tic k = None
      | Some v \<Rightarrow> (\<exists>tv. map_of tic k = Some tv \<and> repr S h v tv))"
  unfolding items_repr_def
  by (induction ic tic rule: list_all2_induct) (auto split: option.splits)

lemma items_repr_dset:
  "items_repr S h ic tic \<Longrightarrow> repr S h v tv \<Longrightarrow> items_repr S h (dset ic k v) (dset tic k tv)"
  unfolding items_repr_def
  by (induction ic tic rule: list_all2_induct) auto

lemma crepr_ref: "crepr T h a tc \<Longrightarrow> a < length h \<Longrightarrow> repr (insert a T) h (HRef a) tc"
proof (cases "h ! a")
  case (ODict ic)
  assume c: "crepr T h a tc" and a: "a < length h"
  from c ODict obtain tic where tc: "tc = PDict tic" and i: "items_repr T h ic tic"
    by (auto simp: crepr_def)
  have "items_repr (insert a T) h ic tic" using i by (rule items_repr_mono) auto
  then show ?thesis using repr_dict[of a "insert a T" h ic tic] a ODict tc
    by (simp add: items_repr_def)
next
  case (OList xs)
  assume c: "crepr T h a tc" and a: "a < length h"
  from c OList obtain ts where tc: "tc = PList ts" and l: "list_all2 (repr T h) xs ts"
    by (auto simp: crepr_def)
  have "list_all2 (repr (insert a T) h) xs ts" using l by (rule list_repr_mono) auto
  then show ?thesis using repr_list[of a h xs "insert a T" ts] a OList tc by simp
qed

lemma matches_InlD: "matches S h (Inl e) p \<Longrightarrow> p = Inl e"
  by (cases p) (auto simp: matches_def)

lemma matches_InrD: "matches S h (Inr r) p \<Longrightarrow> \<exists>t. p = Inr t \<and> repr S h r t"
  by (cases p) (auto simp: matches_def)

lemma h_copy_err: "h_copy h v = (Inl e, h1) \<Longrightarrow> deref h v = None \<and> e = AttributeError"
  by (auto simp: h_copy_def alloc_def split: option.splits)

lemma h_items_err: "h_items h v = Inl e \<Longrightarrow> e = AttributeError \<and> \<not> h_is_dict h v"
  by (auto simp: h_items_def h_is_dict_def split: option.splits obj.splits)

lemma h_items_ok: "h_items h v = Inr items \<Longrightarrow> \<exists>a. v = HRef a \<and> a < length h \<and> h ! a = ODict items"
  by (auto simp: h_items_def deref_def split: hval.splits option.splits obj.splits if_splits)

lemma h_get_or_new_err':
  "h_get_or_new h (HRef a) key = (Inl e, h1) \<Longrightarrow> a < length h \<Longrightarrow>
     e = AttributeError \<and> (\<exists>xs. h ! a = OList xs)"
  by (auto simp: h_get_or_new_def deref_def alloc_def split: option.splits obj.splits)

lemma h_setitem_err:
  "h_setitem h (HRef a) key v = Inl e \<Longrightarrow> a < length h \<Longrightarrow> e = TypeError \<and> (\<exists>xs. h ! a = OList xs)"
  by (auto simp: h_setitem_def deref_def split: option.splits obj.splits)

lemma items_repr_Cons:
  "items_repr S h ((key, val) # rest) titems \<Longrightarrow>
     \<exists>tval trest. titems = (key, tval) # trest \<and> repr S h val tval \<and> items_repr S h rest trest"
  unfolding items_repr_def by (cases titems) auto

lemma h_rupdate_refines_aux:
  "\<forall>res h' S t1 t2. h_rupdate n h dict1 dict2 = Some (res, h') \<longrightarrow> repr S h dict1 t1 \<longrightarrow>
      repr S h dict2 t2 \<longrightarrow> (\<forall>x \<in> S. x < length h) \<longrightarrow>
      matches (S \<union> {length h..<length h'}) h' res (rupdate t1 t2)"
  "\<forall>res h' S a tc titems. h_rupdate_loop n h dict1c items = Some (res, h') \<longrightarrow> dict1c = HRef a \<longrightarrow>
      a < length h \<longrightarrow> a \<notin> S \<longrightarrow> (\<forall>x \<in> S. x < length h) \<longrightarrow>
      items_repr S h items titems \<longrightarrow> crepr S h a tc \<longrightarrow>
      (case rupdate_loop tc titems of
         Inl e \<Rightarrow> res = Inl e
       | Inr t \<Rightarrow> res = Inr dict1c \<and> crepr (S \<union> {length h..<length h'}) h' a t)"
proof (induction n h dict1 dict2 and n h dict1c items rule: h_rupdate_h_rupdate_loop.induct)
  case (1 h dict1 dict2)
  show ?case by (simp add: h_rupdate.simps)
next
  case (2 n h dict1 dict2)
  show ?case
  proof (intro allI impI)
    fix res h' S t1 t2
    assume run: "h_rupdate (Suc n) h dict1 dict2 = Some (res, h')"
      and r1: "repr S h dict1 t1" and r2: "repr S h dict2 t2" and S: "\<forall>x \<in> S. x < length h"
    from run show "matches (S \<union> {length h..<length h'}) h' res (rupdate t1 t2)"
    proof (cases rule: h_rupdate_SucE)
      case (copy_err e)
      from h_copy_err[OF copy_err(1)] have "deref h dict1 = None" and e: "e = AttributeError" by auto
      then have "py_copy t1 = Inl AttributeError" using r1 repr_scalar_copy by blast
      then show ?thesis using copy_err(2) e by (simp add: rupdate.simps matches_def)
    next
      case (items_err dict1c e)
      from h_copy_ok[OF items_err(1)] obtain a1 where
        d1: "dict1 = HRef a1" and h1: "h' = h @ [h ! a1]" by blast
      have c1: "py_copy t1 = Inr t1" using r1 d1 repr_ref_copy by blast
      from h_items_err[OF items_err(2)] have e: "e = AttributeError" and nd: "\<not> h_is_dict h' dict2"
        by auto
      have "repr S h' dict2 t2" using r2 repr_stable stable_alloc h1 by metis
      then have "\<not> is_dict t2" using nd repr_is_dict by blast
      then have "rupdate t1 t2 = Inl AttributeError" using c1
        by (cases t2) (simp_all add: rupdate.simps)
      then show ?thesis using items_err(3) e by (simp add: matches_def)
    next
      case (loop dict1c h1 items)
      let ?a = "length h"
      from h_copy_ok[OF loop(1)] obtain a1 where
        d1: "dict1 = HRef a1" and a1: "a1 < length h" and c: "dict1c = HRef ?a" and h1: "h1 = h @ [h ! a1]"
        by blast
      have l1: "length h1 = Suc ?a" using h1 by simp
      have st: "stable T h h1" for T using h1 by (simp add: stable_alloc)
      have c1: "py_copy t1 = Inr t1" using r1 d1 repr_ref_copy by blast
      from h_items_ok[OF loop(2)] obtain a2 where d2: "dict2 = HRef a2" and i2: "h1 ! a2 = ODict items"
        by blast
      have a2h: "a2 < length h" using r2 d2 repr_ref_valid by blast
      have i2h: "h ! a2 = ODict items" using i2 a2h h1 by (simp add: nth_append)
      from repr_ref_dict[OF r2[unfolded d2] i2h] obtain titems where
        t2: "t2 = PDict titems" and ir: "items_repr S h items titems" by blast
      have ir1: "items_repr S h1 items titems" using ir st items_repr_stable by blast
      have cr: "crepr S h1 ?a t1"
      proof (cases "h ! a1")
        case (ODict i1)
        from repr_ref_dict[OF r1[unfolded d1] ODict] obtain t1i where
          "t1 = PDict t1i" "items_repr S h i1 t1i" by blast
        then show ?thesis using ODict h1 items_repr_stable[OF _ st] by (auto simp: crepr_def)
      next
        case (OList xs)
        from repr_ref_list[OF r1[unfolded d1] OList] obtain ts where
          "t1 = PList ts" "list_all2 (repr S h) xs ts" by blast
        then show ?thesis using OList h1 list_repr_stable[OF _ st] by (auto simp: crepr_def)
      qed
      have nin: "?a \<notin> S" using S by auto
      have S1: "\<forall>x \<in> S. x < length h1" using S l1 by auto
      have al: "?a < length h1" using l1 by simp
      have ih: "case rupdate_loop t1 titems of
         Inl e \<Rightarrow> res = Inl e
       | Inr t \<Rightarrow> res = Inr dict1c \<and> crepr (S \<union> {length h1..<length h'}) h' ?a t"
        using 2[OF loop(1)[symmetric] refl loop(2), rule_format, OF loop(3) c al nin S1[rule_format] ir1 cr] .
      have pure: "rupdate t1 t2 = rupdate_loop t1 titems" using c1 t2 by (simp add: rupdate.simps)
      have fr: "frame ?a h1 h'"
        using h_rupdate_frame_aux(2)[rule_format, OF loop(3) c order_refl al] by simp
      have l': "length h1 \<le> length h'" using fr by (simp add: frame_def)
      show ?thesis
      proof (cases "rupdate_loop t1 titems")
        case (Inl e)
        then show ?thesis using ih pure by (simp add: matches_def)
      next
        case (Inr t)
        then have res: "res = Inr dict1c" and ct: "crepr (S \<union> {length h1..<length h'}) h' ?a t"
          using ih by auto
        have "?a < length h'" using l1 l' by simp
        from crepr_ref[OF ct this] have "repr (insert ?a (S \<union> {length h1..<length h'})) h' (HRef ?a) t" .
        moreover have "insert ?a (S \<union> {length h1..<length h'}) = S \<union> {?a..<length h'}"
          using l1 l' by auto
        ultimately show ?thesis using res c pure Inr by (simp add: matches_def)
      qed
    qed
  qed
next
  case (3 n h dict1c)
  show ?case
  proof (intro allI impI)
    fix res h' S a tc titems
    assume run: "h_rupdate_loop n h dict1c [] = Some (res, h')" and "items_repr S h [] titems"
      and cr: "crepr S h a tc"
    then have "titems = []" "res = Inr dict1c" "h' = h" by (auto simp: items_repr_def)
    then show "case rupdate_loop tc titems of
         Inl e \<Rightarrow> res = Inl e
       | Inr t \<Rightarrow> res = Inr dict1c \<and> crepr (S \<union> {length h..<length h'}) h' a t"
      using cr by simp
  qed
next
  case (4 n h dict1c key val rest)
  show ?case
  proof (intro allI impI)
    fix res h' S a tc titems
    assume run: "h_rupdate_loop n h dict1c ((key, val) # rest) = Some (res, h')"
      and c: "dict1c = HRef a" and al: "a < length h" and nin: "a \<notin> S"
      and S: "\<forall>x \<in> S. x < length h"
      and ir: "items_repr S h ((key, val) # rest) titems" and cr: "crepr S h a tc"
    from items_repr_Cons[OF ir] obtain tval trest where
      ti: "titems = (key, tval) # trest" and rv: "repr S h val tval" and irr: "items_repr S h rest trest"
      by blast
    have isd: "h_is_dict h val = is_dict tval" using rv by (rule repr_is_dict)
    from run show "case rupdate_loop tc titems of
         Inl e \<Rightarrow> res = Inl e
       | Inr t \<Rightarrow> res = Inr dict1c \<and> crepr (S \<union> {length h..<length h'}) h' a t"
    proof (cases rule: h_rupdate_loop_ConsE)
      case (get_err e)
      from h_get_or_new_err'[OF get_err(2)[unfolded c] al] obtain xs where
        e: "e = AttributeError" and xs: "h ! a = OList xs" by blast
      from cr xs obtain ts where "tc = PList ts" by (auto simp: crepr_def)
      then show ?thesis using get_err(1,3) e isd ti by simp
    next
      case (rec_err sub h1 e)
      let ?e = "length h"
      from h_get_or_new_ok[OF rec_err(2)] c obtain ic where
        ic: "h ! a = ODict ic" and h1: "h1 = h @ [ODict []]"
        and sub: "sub = (case map_of ic key of None \<Rightarrow> HRef ?e | Some v \<Rightarrow> v)" by auto
      from cr ic obtain tic where tc: "tc = PDict tic" and iic: "items_repr S h ic tic"
        by (auto simp: crepr_def)
      have st1: "stable T h h1" for T using h1 by (simp add: stable_alloc)
      let ?S1 = "insert ?e S"
      let ?tsub = "case map_of tic key of None \<Rightarrow> PDict [] | Some v \<Rightarrow> v"
      have rsub: "repr ?S1 h1 sub ?tsub"
      proof (cases "map_of ic key")
        case None
        then have "map_of tic key = None" using items_repr_map_of[OF iic, of key] by simp
        moreover have "repr ?S1 h1 (HRef ?e) (PDict [])"
          by (rule repr_dict[where items="[]"]) (simp_all add: h1)
        ultimately show ?thesis using sub None by simp
      next
        case (Some v)
        then obtain tv where tv: "map_of tic key = Some tv" and "repr S h v tv"
          using items_repr_map_of[OF iic, of key] by auto
        then have "repr ?S1 h1 v tv" using repr_stable[OF _ st1] repr_mono[of S h1 v tv ?S1] by blast
        then show ?thesis using sub Some tv by simp
      qed
      have rval: "repr ?S1 h1 val tval" using repr_mono[OF repr_stable[OF rv st1], of ?S1] by blast
      have S1: "\<forall>x \<in> ?S1. x < length h1" using S h1 by auto
      have "matches (?S1 \<union> {length h1..<length h'}) h' (Inl e) (rupdate ?tsub tval)"
        using 4(1)[OF rec_err(1) rec_err(2)[symmetric] refl, rule_format, OF rec_err(3) rsub rval S1[rule_format]] .
      then have "rupdate ?tsub tval = Inl e" by (rule matches_InlD)
      then show ?thesis using rec_err(1,4) isd ti tc by simp
    next
      case (set_err sub h1 r e)
      from h_get_or_new_ok[OF set_err(2)] c obtain ic where
        ic: "h ! a = ODict ic" and h1: "h1 = h @ [ODict []]" by auto
      have f2: "frame (length h1) h1 h'"
        using h_rupdate_frame_aux(1)[rule_format, OF set_err(3)] by simp
      have "a < length h'" "h' ! a = ODict ic"
        using f2 al h1 ic by (auto simp: frame_def nth_append)
      then have False using set_err(4) c by (simp add: h_setitem_def deref_def)
      then show ?thesis ..
    next
      case (rec_ok sub h1 r0 h2 h3)
      let ?e = "length h"
      from h_get_or_new_ok[OF rec_ok(2)] c obtain ic where
        ic: "h ! a = ODict ic" and h1: "h1 = h @ [ODict []]"
        and sub: "sub = (case map_of ic key of None \<Rightarrow> HRef ?e | Some v \<Rightarrow> v)" by auto
      from cr ic obtain tic where tc: "tc = PDict tic" and iic: "items_repr S h ic tic"
        by (auto simp: crepr_def)
      have l1: "length h1 = Suc ?e" using h1 by simp
      have st1: "stable T h h1" for T using h1 by (simp add: stable_alloc)
      let ?S1 = "insert ?e S"
      let ?tsub = "case map_of tic key of None \<Rightarrow> PDict [] | Some v \<Rightarrow> v"
      have rsub: "repr ?S1 h1 sub ?tsub"
      proof (cases "map_of ic key")
        case None
        then have "map_of tic key = None" using items_repr_map_of[OF iic, of key] by simp
        moreover have "repr ?S1 h1 (HRef ?e) (PDict [])"
          by (rule repr_dict[where items="[]"]) (simp_all add: h1)
        ultimately show ?thesis using sub None by simp
      next
        case (Some v)
        then obtain tv where tv: "map_of tic key = Some tv" and "repr S h v tv"
          using items_repr_map_of[OF iic, of key] by auto
        then have "repr ?S1 h1 v tv" using repr_stable[OF _ st1] repr_mono[of S h1 v tv ?S1] by blast
        then show ?thesis using sub Some tv by simp
      qed
      have rval: "repr ?S1 h1 val tval" using repr_mono[OF repr_stable[OF rv st1], of ?S1] by blast
      have S1: "\<forall>x \<in> ?S1. x < length h1" using S h1 by auto
      have f2: "frame (length h1) h1 h2"
        using h_rupdate_frame_aux(1)[rule_format, OF rec_ok(3)] by simp
      have l2: "length h1 \<le> length h2" using f2 by (simp add: frame_def)
      have st2: "stable T h1 h2" for T using f2 by (rule frame_stable)
      let ?T = "S \<union> {?e..<length h2}"
      have "matches (?S1 \<union> {length h1..<length h2}) h2 (Inr r0) (rupdate ?tsub tval)"
        using 4(1)[OF rec_ok(1) rec_ok(2)[symmetric] refl, rule_format, OF rec_ok(3) rsub rval S1[rule_format]] .
      moreover have "?S1 \<union> {length h1..<length h2} = ?T" using l1 l2 by auto
      ultimately obtain tr where ptr: "rupdate ?tsub tval = Inr tr" and rr: "repr ?T h2 r0 tr"
        using matches_InrD by metis
      from h_setitem_ok[OF rec_ok(4)] c obtain ic2 where
        ic2: "h2 ! a = ODict ic2" and h3: "h3 = h2[a := ODict (dset ic2 key r0)]" by auto
      have "h2 ! a = h ! a" using f2 al l1 h1 by (simp add: frame_def nth_append)
      then have ic2eq: "ic2 = ic" using ic ic2 by simp
      have l3: "length h3 = length h2" using h3 by simp
      have nT: "a \<notin> ?T" using nin al by simp
      have st3: "stable ?T h2 h3" using stable_setitem[OF nT ic2] h3 by simp
      have st3S: "stable S h2 h3" using stable_setitem[OF nin ic2] h3 by simp
      have al2: "a < length h2" using al l1 l2 by simp
      have iic3: "items_repr ?T h3 ic tic"
        using items_repr_mono[OF items_repr_stable[OF items_repr_stable[OF items_repr_stable[OF iic st1] st2] st3S], of ?T]
        by simp
      have rr3: "repr ?T h3 r0 tr" using repr_stable[OF rr st3] .
      have cr3: "crepr ?T h3 a (PDict (dset tic key tr))"
        using items_repr_dset[OF iic3 rr3, of key] al2 h3 ic2eq by (simp add: crepr_def)
      have irr3: "items_repr ?T h3 rest trest"
        using items_repr_mono[OF items_repr_stable[OF items_repr_stable[OF items_repr_stable[OF irr st1] st2] st3S], of ?T]
        by simp
      have T3: "\<forall>x \<in> ?T. x < length h3" using S l1 l2 l3 by auto
      have al3: "a < length h3" using al2 l3 by simp
      have ih: "case rupdate_loop (PDict (dset tic key tr)) trest of
         Inl e \<Rightarrow> res = Inl e
       | Inr t \<Rightarrow> res = Inr dict1c \<and> crepr (?T \<union> {length h3..<length h'}) h' a t"
        using 4(2)[OF rec_ok(1) rec_ok(2)[symmetric] refl rec_ok(3) refl refl rec_ok(4), rule_format,
            OF rec_ok(5) c al3 nT T3[rule_format] irr3 cr3] .
      have fr3: "frame a h3 h'"
        using h_rupdate_frame_aux(2)[rule_format, OF rec_ok(5) c order_refl al3] by simp
      have l': "length h3 \<le> length h'" using fr3 by (simp add: frame_def)
      have seteq: "?T \<union> {length h3..<length h'} = S \<union> {?e..<length h'}"
        using l1 l2 l3 l' by auto
      have pure: "rupdate_loop tc titems = rupdate_loop (PDict (dset tic key tr)) trest"
        using rec_ok(1) isd ti tc ptr by simp
      show ?thesis using ih[unfolded seteq] pure by simp
    next
      case (plain_err e)
      from h_setitem_err[OF plain_err(2)[unfolded c] al] obtain xs where
        e: "e = TypeError" and xs: "h ! a = OList xs" by blast
      from cr xs obtain ts where "tc = PList ts" by (auto simp: crepr_def)
      then show ?thesis using plain_err(1,3) e isd ti by simp
    next
      case (plain_ok h1)
      from h_setitem_ok[OF plain_ok(2)] c obtain ic where
        ic: "h ! a = ODict ic" and h1: "h1 = h[a := ODict (dset ic key val)]" by auto
      from cr ic obtain tic where tc: "tc = PDict tic" and iic: "items_repr S h ic tic"
        by (auto simp: crepr_def)
      have l1: "length h1 = length h" using h1 by simp
      have st: "stable S h h1" using stable_setitem[OF nin ic] h1 by simp
      have iic1: "items_repr S h1 ic tic" using items_repr_stable[OF iic st] .
      have rv1: "repr S h1 val tval" using repr_stable[OF rv st] .
      have cr1: "crepr S h1 a (PDict (dset tic key tval))"
        using items_repr_dset[OF iic1 rv1, of key] al h1 by (simp add: crepr_def)
      have irr1: "items_repr S h1 rest trest" using items_repr_stable[OF irr st] .
      have S1: "\<forall>x \<in> S. x < length h1" using S l1 by simp
      have al1: "a < length h1" using al l1 by simp
      have ih: "case rupdate_loop (PDict (dset tic key tval)) trest of
         Inl e \<Rightarrow> res = Inl e
       | Inr t \<Rightarrow> res = Inr dict1c \<and> crepr (S \<union> {length h1..<length h'}) h' a t"
        using 4(3)[OF plain_ok(1) plain_ok(2), rule_format, OF plain_ok(3) c al1 nin S1[rule_format] irr1 cr1] .
      have pure: "rupdate_loop tc titems = rupdate_loop (PDict (dset tic key tval)) trest"
        using plain_ok(1) isd ti tc by simp
      show ?thesis using ih[unfolded l1] pure by simp
    qed
  qed
qed

lemma h_rupdate_refines:
  "h_rupdate n h d1 d2 = Some (res, h') \<Longrightarrow> repr S h d1 t1 \<Longrightarrow> repr S h d2 t2 \<Longrightarrow>
     \<forall>x \<in> S. x < length h \<Longrightarrow> matches (S \<union> {length h..<length h'}) h' res (rupdate t1 t2)"
  using h_rupdate_refines_aux(1) by blast

lemma h_finaldict_loop_refines:
  "h_finaldict_loop n h fd ds = Some (res, h') \<Longrightarrow> repr S h fd tfd \<Longrightarrow>
     list_all2 (repr S h) ds ts \<Longrightarrow> \<forall>x \<in> S. x < length h \<Longrightarrow>
     matches (S \<union> {length h..<length h'}) h' res (finaldict_loop tfd ts)"
proof (induction ds arbitrary: h fd S tfd ts)
  case Nil
  then show ?case by (auto simp: matches_def)
next
  case (Cons d ds)
  from Cons.prems(3) obtain t ts' where ts: "ts = t # ts'" and rd: "repr S h d t"
    and rds: "list_all2 (repr S h) ds ts'" by (cases ts) auto
  from Cons.prems(1) obtain rres h1 where rr: "h_rupdate n h fd d = Some (rres, h1)"
    by (auto split: option.splits)
  have f1: "frame (length h) h h1" using h_rupdate_frame[OF rr] .
  have l1: "length h \<le> length h1" using f1 by (simp add: frame_def)
  have m1: "matches (S \<union> {length h..<length h1}) h1 rres (rupdate tfd t)"
    using h_rupdate_refines[OF rr Cons.prems(2) rd Cons.prems(4)] .
  show ?case
  proof (cases rres)
    case (Inl e)
    then have "rupdate tfd t = Inl e" using m1 matches_InlD by blast
    moreover have "res = Inl e" using Cons.prems(1) rr Inl by simp
    ultimately show ?thesis using ts by (simp add: matches_def)
  next
    case (Inr fd')
    then obtain tfd' where p: "rupdate tfd t = Inr tfd'"
      and rfd: "repr (S \<union> {length h..<length h1}) h1 fd' tfd'"
      using m1 matches_InrD by blast
    have lp: "h_finaldict_loop n h1 fd' ds = Some (res, h')" using Cons.prems(1) rr Inr by simp
    have f2: "frame (length h1) h1 h'" using h_finaldict_loop_frame[OF lp] .
    have l2: "length h1 \<le> length h'" using f2 by (simp add: frame_def)
    let ?S1 = "S \<union> {length h..<length h1}"
    have rds1: "list_all2 (repr ?S1 h1) ds ts'"
      using list_repr_mono[OF list_repr_stable[OF rds frame_stable[OF f1]], of ?S1] by simp
    have S1: "\<forall>x \<in> ?S1. x < length h1" using Cons.prems(4) l1 by auto
    have "matches (?S1 \<union> {length h1..<length h'}) h' res (finaldict_loop tfd' ts')"
      using Cons.IH[OF lp rfd rds1 S1] .
    moreover have "?S1 \<union> {length h1..<length h'} = S \<union> {length h..<length h'}"
      using l1 l2 by auto
    ultimately show ?thesis using ts p by simp
  qed
qed

lemma h_finaldict_refines:
  assumes "h_finaldict n h ds = Some (res, h')" and "list_all2 (repr S h) ds ts"
    and "\<forall>x \<in> S. x < length h"
  shows "matches (S \<union> {length h..<length h'}) h' res (finaldict ts)"
proof -
  let ?h1 = "h @ [ODict []]"
  let ?S1 = "insert (length h) S"
  have lp: "h_finaldict_loop n ?h1 (HRef (length h)) ds = Some (res, h')"
    using assms(1) by (simp add: h_finaldict_def alloc_def)
  have r: "repr ?S1 ?h1 (HRef (length h)) (PDict [])"
    by (rule repr_dict[where items="[]"]) simp_all
  have rds: "list_all2 (repr ?S1 ?h1) ds ts"
    using list_repr_mono[OF list_repr_stable[OF assms(2) stable_alloc], of ?S1] by blast
  have S1: "\<forall>x \<in> ?S1. x < length ?h1" using assms(3) by auto
  have "matches (?S1 \<union> {length ?h1..<length h'}) h' res (finaldict_loop (PDict []) ts)"
    using h_finaldict_loop_refines[OF lp r rds S1] .
  moreover have "length ?h1 \<le> length h'" using h_finaldict_loop_frame[OF lp] by (simp add: frame_def)
  then have "?S1 \<union> {length ?h1..<length h'} = S \<union> {length h..<length h'}" by auto
  ultimately show ?thesis by (simp add: finaldict_def)
qed

lemma h_cdicts_refines:
  "h_cdicts n h combos = Some (res, h') \<Longrightarrow> list_all2 (list_all2 (repr S h)) combos tcombos \<Longrightarrow>
     \<forall>x \<in> S. x < length h \<Longrightarrow>
     lmatches (S \<union> {length h..<length h'}) h' res (mapM finaldict tcombos)"
proof (induction combos arbitrary: h S tcombos res)
  case Nil
  then show ?case by (auto simp: lmatches_def)
next
  case (Cons combo combos)
  from Cons.prems(2) obtain tc tcs where tcs: "tcombos = tc # tcs"
    and rc: "list_all2 (repr S h) combo tc"
    and rcs: "list_all2 (list_all2 (repr S h)) combos tcs" by (cases tcombos) auto
  from Cons.prems(1) obtain r1 h1 where fdr: "h_finaldict n h combo = Some (r1, h1)"
    by (auto split: option.splits)
  have f1: "frame (length h) h h1" and l1: "length h < length h1"
    using h_finaldict_frame[OF fdr] by auto
  have m1: "matches (S \<union> {length h..<length h1}) h1 r1 (finaldict tc)"
    using h_finaldict_refines[OF fdr rc Cons.prems(3)] .
  show ?case
  proof (cases r1)
    case (Inl e)
    then have "finaldict tc = Inl e" using m1 matches_InlD by blast
    moreover have "res = Inl e" using Cons.prems(1) fdr Inl by simp
    ultimately show ?thesis using tcs by (simp add: lmatches_def)
  next
    case (Inr fd)
    then obtain tfd where p: "finaldict tc = Inr tfd"
      and rfd: "repr (S \<union> {length h..<length h1}) h1 fd tfd"
      using m1 matches_InrD by blast
    from Cons.prems(1) fdr Inr obtain r2 where rest: "h_cdicts n h1 combos = Some (r2, h')"
      by (auto split: option.splits sum.splits prod.splits)
    have f2: "frame (length h1) h1 h'" using h_cdicts_frame[OF rest] .
    have l2: "length h1 \<le> length h'" using f2 by (simp add: frame_def)
    let ?S1 = "S \<union> {length h..<length h1}"
    let ?S2 = "S \<union> {length h..<length h'}"
    have step: "list_all2 (repr ?S1 h1) xs ts" if "list_all2 (repr S h) xs ts" for xs ts
      using list_repr_mono[OF list_repr_stable[OF that frame_stable[OF f1]], of ?S1] by simp
    have rcs1: "list_all2 (list_all2 (repr ?S1 h1)) combos tcs"
      using rcs by (rule list_all2_mono) (rule step)
    have S1: "\<forall>x \<in> ?S1. x < length h1" using Cons.prems(3) l1 by auto
    have m2: "lmatches (?S1 \<union> {length h1..<length h'}) h' r2 (mapM finaldict tcs)"
      using Cons.IH[OF rest rcs1 S1] .
    have seteq: "?S1 \<union> {length h1..<length h'} = ?S2" using l1 l2 by auto
    have sub2: "?S1 \<subseteq> ?S2" using l2 by auto
    have rfd': "repr ?S2 h' fd tfd"
      using repr_mono[OF repr_stable[OF rfd frame_stable[OF f2]] sub2] .
    show ?thesis
    proof (cases "mapM finaldict tcs")
      case (Inl e)
      then have "r2 = Inl e" using m2 by (simp add: lmatches_def)
      then have "res = Inl e" using Cons.prems(1) fdr \<open>r1 = Inr fd\<close> rest by simp
      then show ?thesis using tcs p Inl by (simp add: lmatches_def)
    next
      case (Inr ts)
      then obtain rs where r2: "r2 = Inr rs" and rrs: "list_all2 (repr ?S2 h') rs ts"
        using m2[unfolded seteq] by (auto simp: lmatches_def)
      have "res = Inr (fd # rs)" using Cons.prems(1) fdr \<open>r1 = Inr fd\<close> rest r2 by simp
      then show ?thesis using tcs p Inr rfd' rrs by (simp add: lmatches_def)
    qed
  qed
qed

lemma fits_mono: "fits n h v \<Longrightarrow> n \<le> m \<Longrightarrow> fits m h v"
proof (induction n arbitrary: m v)
  case 0
  then show ?case by simp
next
  case (Suc n)
  then obtain m' where m: "m = Suc m'" and le: "n \<le> m'" by (cases m) auto
  show ?case
  proof (cases v)
    case (HRef a)
    show ?thesis
    proof (cases "h ! a")
      case (ODict items)
      then show ?thesis using Suc.prems(1) Suc.IH[OF _ le] HRef m by auto
    next
      case (OList xs)
      then show ?thesis using Suc.prems(1) HRef m by simp
    qed
  qed (simp_all add: m)
qed

lemma repr_fits: "repr S h v t \<Longrightarrow> \<exists>n. fits n h v"
proof (induction rule: repr.induct)
  case (repr_list a xs ts)
  then have "fits (Suc 0) h (HRef a)" by simp
  then show ?case by blast
next
  case (repr_dict a items titems)
  have "\<exists>n. \<forall>kv \<in> set items. fits n h (snd kv)"
    using repr_dict(4)
  proof (induction items titems rule: list_all2_induct)
    case Nil
    show ?case by simp
  next
    case (Cons kv items kt titems)
    then obtain n1 n2 where n1: "fits n1 h (snd kv)" and n2: "\<forall>kv \<in> set items. fits n2 h (snd kv)"
      by blast
    have "\<forall>x \<in> set (kv # items). fits (max n1 n2) h (snd x)"
      using n1 n2 fits_mono[of _ h _ "max n1 n2"] by auto
    then show ?case by blast
  qed
  then obtain n where "\<forall>kv \<in> set items. fits n h (snd kv)" by blast
  then have "fits (Suc n) h (HRef a)" using repr_dict(2,3) by simp
  then show ?case by blast
qed (auto intro: exI[of _ "Suc 0"])

lemma list_repr_fits: "list_all2 (repr S h) ds ts \<Longrightarrow> \<exists>n. \<forall>d \<in> set ds. fits n h d"
proof (induction ds ts rule: list_all2_induct)
  case Nil
  show ?case by simp
next
  case (Cons d ds t ts)
  from Cons(1) repr_fits obtain n1 where n1: "fits n1 h d" by blast
  from Cons(3) obtain n2 where n2: "\<forall>d \<in> set ds. fits n2 h d" by blast
  have "\<forall>x \<in> set (d # ds). fits (max n1 n2) h x"
    using n1 n2 fits_mono[of _ h _ "max n1 n2"] by auto
  then show ?case by blast
qed

lemma combos_repr_fits:
  "list_all2 (list_all2 (repr S h)) combos tcombos \<Longrightarrow>
     \<exists>n. \<forall>combo \<in> set combos. \<forall>d \<in> set combo. fits n h d"
proof (induction combos tcombos rule: list_all2_induct)
  case Nil
  show ?case by simp
next
  case (Cons c cs t ts)
  from Cons(1) list_repr_fits obtain n1 where n1: "\<forall>d \<in> set c. fits n1 h d" by blast
  from Cons(3) obtain n2 where n2: "\<forall>combo \<in> set cs. \<forall>d \<in> set combo. fits n2 h d" by blast
  have m1: "\<forall>d \<in> set c. fits (max n1 n2) h d"
    using n1 fits_mono[of n1 h _ "max n1 n2"] by simp
  have m2: "\<forall>combo \<in> set cs. \<forall>d \<in> set combo. fits (max n1 n2) h d"
    using n2 fits_mono[of n2 h _ "max n1 n2"] by simp
  have "\<forall>combo \<in> set (c # cs). \<forall>d \<in> set combo. fits (max n1 n2) h d"
    using m1 m2 by simp
  then show ?case by blast
qed

theorem heap_run_agrees:
  assumes "list_all2 (list_all2 (repr S h)) combos tcombos" and "\<forall>x \<in> S. x < length h"
  shows "\<exists>n. \<forall>m \<ge> n. \<exists>res h'. h_cdicts m h combos = Some (res, h') \<and>
           lmatches (S \<union> {length h..<length h'}) h' res (mapM finaldict tcombos)"
proof -
  from combos_repr_fits[OF assms(1)] obtain n where
    n: "\<forall>combo \<in> set combos. \<forall>d \<in> set combo. fits n h d" by blast
  have "\<exists>res h'. h_cdicts m h combos = Some (res, h') \<and>
           lmatches (S \<union> {length h..<length h'}) h' res (mapM finaldict tcombos)" if "n \<le> m" for m
  proof -
    have "\<forall>combo \<in> set combos. \<forall>d \<in> set combo. fits m h d" using n that fits_mono by blast
    from h_cdicts_fuel[OF this] obtain res h' where r: "h_cdicts m h combos = Some (res, h')"
      by blast
    from h_cdicts_refines[OF r assms] show ?thesis using r by blast
  qed
  then show ?thesis by blast
qed

section \<open>The worked example, evaluated\<close>

lemmas path_defs = yaml_files_def with_suffix_def Path_def splitroot_def name_def suffix_def
  rfind_dot_def str_path_def Let_def

lemma demo_yaml_files:
  "yaml_files [''base'', ''override''] =
     Inr [\<lparr>root = [], tail = [''base.yaml'']\<rparr>, \<lparr>root = [], tail = [''override.yaml'']\<rparr>]"
  "yaml_files [''base'', ''none''] =
     Inr [\<lparr>root = [], tail = [''base.yaml'']\<rparr>, \<lparr>root = [], tail = [''none.yaml'']\<rparr>]"
  "yaml_files [''base'', ''single''] =
     Inr [\<lparr>root = [], tail = [''base.yaml'']\<rparr>, \<lparr>root = [], tail = [''single.yaml'']\<rparr>]"
  "yaml_files [''base''] = Inr [\<lparr>root = [], tail = [''base.yaml'']\<rparr>]"
  by (simp_all add: path_defs)

lemma demo_read_files:
  "read_files demo_env [\<lparr>root = [], tail = [''base.yaml'']\<rparr>, \<lparr>root = [], tail = [''override.yaml'']\<rparr>]
     = Inr [[demo_base], [demo_over1, demo_over2]]"
  "read_files demo_env [\<lparr>root = [], tail = [''base.yaml'']\<rparr>, \<lparr>root = [], tail = [''none.yaml'']\<rparr>]
     = Inr [[demo_base], []]"
  "read_files demo_env [\<lparr>root = [], tail = [''base.yaml'']\<rparr>] = Inr [[demo_base]]"
  by (simp_all add: read_files_def str_path_def demo_env_def)

lemma demo_load:
  "load_all demo_env (str_path \<lparr>root = [], tail = [''base.yaml'']\<rparr>) = Inr [demo_base]"
  "load_all demo_env (str_path \<lparr>root = [], tail = [''single.yaml'']\<rparr>) = Inr [demo_over1]"
  by (simp_all add: str_path_def demo_env_def)

lemma demo_rupdate:
  "rupdate demo_base demo_over1 = Inr demo_cfg1"
  "rupdate demo_base demo_over2 = Inr demo_cfg2"
  by (simp_all add: demo_base_def demo_over1_def demo_over2_def demo_cfg1_def demo_cfg2_def
      rupdate.simps)

lemma demo_wf: "is_dict demo_base" "wf demo_base"
  by (simp_all add: demo_base_def)

lemma demo_finaldict:
  "finaldict [demo_base, demo_over1] = Inr demo_cfg1"
  "finaldict [demo_base, demo_over2] = Inr demo_cfg2"
  "finaldict [demo_base] = Inr demo_base"
  using demo_rupdate demo_wf
  by (simp_all add: finaldict_def rupdate_empty)

lemma demo_make_cdicts:
  "make_cdicts [[demo_base], [demo_over1, demo_over2]] = Inr [demo_cfg1, demo_cfg2]"
  "make_cdicts [[demo_base]] = Inr [demo_base]"
  by (simp_all add: make_cdicts_def itertools_product_def product_step_def demo_finaldict)

lemma demo_allowed:
  "allowed [''svc''] demo_cfg1" "\<not> allowed [''svc''] demo_cfg2" "allowed [''svc''] demo_base"
  by (simp_all add: allowed_def demo_cfg1_def demo_cfg2_def demo_base_def)







section \<open>The claims\<close>

subsection \<open>The recursive update\<close>

text \<open>
  Claim C1: for mappings A (base) and B (override), \<open>rupdate A B\<close> keeps every key of A
  that B lacks, takes every key of B that A lacks with B's value, and at a key \<open>k\<close> of
  both holds \<open>rupdate A[k] B[k]\<close> when both values are mappings and \<open>B[k]\<close> otherwise,
  whatever the type of \<open>A[k]\<close>.

  Lemma \<open>rupdate_loop_lookup\<close> above is the part of this that the code keeps: whenever
  the update returns, its result holds at every key what \<open>merged_at\<close> says. What the
  code does not keep is the last case with \<open>B[k]\<close> a mapping and \<open>A[k]\<close> not one: the
  recursive call is made on \<open>A[k]\<close> itself. With \<open>A = {k: [1]}\<close> and \<open>B = {k: {}}\<close> the
  update returns, and its value at \<open>k\<close> is the base's list \<open>[1]\<close>, not the override's
  \<open>{}\<close>.
\<close>

theorem rupdate_list_base_empty_override:
  "rupdate (PDict [(''k'', PList [PInt 1])]) (PDict [(''k'', PDict [])])
     = Inr (PDict [(''k'', PList [PInt 1])])"
  by (simp add: rupdate.simps)

text \<open>
  Claim C2: when \<open>B[k]\<close> is a mapping and \<open>A[k]\<close> is not, the update succeeds and treats
  \<open>A[k]\<close> as absent, so that its value at \<open>k\<close> is \<open>rupdate {} B[k]\<close>.

  With \<open>A = {k: 1}\<close> and \<open>B = {k: {x: 2}}\<close> the update raises AttributeError (the integer
  has no \<open>copy\<close>), where \<open>rupdate {} {x: 2}\<close> returns \<open>{x: 2}\<close>. Lemmas
  \<open>rupdate_scalar_under_mapping\<close>, \<open>rupdate_list_under_empty_mapping\<close> and
  \<open>rupdate_list_under_mapping\<close> above give what the code does there in general.
\<close>

theorem rupdate_scalar_base_raises:
  "rupdate (PDict [(''k'', PInt 1)]) (PDict [(''k'', PDict [(''x'', PInt 2)])]) = Inl AttributeError
   \<and> rupdate (PDict []) (PDict [(''x'', PInt 2)]) = Inr (PDict [(''x'', PInt 2)])"
  by (simp add: rupdate.simps)

subsection \<open>The list of configurations\<close>





text \<open>
  Claim C5: with a non-empty list of allowed types, every configuration's value at key
  \<open>type\<close> must be in the list, and a configuration without that key never passes; at
  the first configuration that fails, \<open>get_configs\<close> raises \<open>SystemExit\<close> whatever the
  configurations after it are, and the caller gets the exception, not the list.

  The configurations are those built from the files' documents. The last part of the
  statement is the loop itself on a configuration without the key.
\<close>


theorem get_configs_type_check:
  assumes "yaml_files cfiles = Inr files" and "read_files E files = Inr fdicts"
    and "make_cdicts fdicts = Inr cdicts" and "types \<noteq> []"
  shows "((\<forall>c \<in> set cdicts. allowed types c) \<longrightarrow>
            snd (get_configs E cfiles types verbose) = Inr cdicts)
       \<and> (\<forall>pre c post. cdicts = pre @ c # post \<and> (\<forall>p \<in> set pre. allowed types p)
              \<and> \<not> allowed types c \<longrightarrow>
            snd (get_configs E cfiles types verbose) = Inl (type_error E types))
       \<and> (\<forall>items rest. map_of items ''type'' = None \<longrightarrow>
            check_types E types (PDict items # rest) = ([], Inl (type_error E types)))"
proof (intro conjI allI impI)
  assume "\<forall>c \<in> set cdicts. allowed types c"
  then have "check_types E types cdicts = ([], Inr ())" by (rule check_types_ok)
  then show "snd (get_configs E cfiles types verbose) = Inr cdicts"
    using get_configs_unfold[OF assms(1,2,3), of types verbose] assms(4) by simp
next
  fix pre c post
  assume a: "cdicts = pre @ c # post \<and> (\<forall>p \<in> set pre. allowed types p) \<and> \<not> allowed types c"
  then have "c \<in> set cdicts" by simp
  then have d: "is_dict c" using make_cdicts_is_dict[OF assms(3)] by blast
  have "check_types E types cdicts = ([], Inl (type_error E types))"
    using check_types_first_bad[of pre types c E post] a d by simp
  then show "snd (get_configs E cfiles types verbose) = Inl (type_error E types)"
    using get_configs_unfold[OF assms(1,2,3), of types verbose] assms(4) by simp
next
  fix items :: "(string \<times> pyval) list" and rest :: "pyval list"
  assume "map_of items ''type'' = None"
  then have "\<not> allowed types (PDict items)" by (simp add: allowed_def)
  then show "check_types E types (PDict items # rest) = ([], Inl (type_error E types))"
    using check_types_first_bad[of "[]" types "PDict items" E rest] by simp
qed

theorem get_configs_type_check_witness:
  "snd (get_configs demo_env [''base''] [''svc''] 1) = Inr [demo_base]
   \<and> snd (get_configs demo_env [''base'', ''override''] [''svc''] 1)
       = Inl (type_error demo_env [''svc''])
   \<and> check_types demo_env [''svc''] [PDict []] = ([], Inl (type_error demo_env [''svc'']))"
proof -
  have ne: "[''svc''] \<noteq> []" by simp
  have a1: "\<forall>c \<in> set [demo_base]. allowed [''svc''] c" using demo_allowed by simp
  have a2: "[demo_cfg1, demo_cfg2] = [demo_cfg1] @ demo_cfg2 # []
     \<and> (\<forall>p \<in> set [demo_cfg1]. allowed [''svc''] p) \<and> \<not> allowed [''svc''] demo_cfg2"
    using demo_allowed by simp
  have a3: "map_of ([] :: (string \<times> pyval) list) ''type'' = None" by simp
  note t1 = get_configs_type_check[OF demo_yaml_files(4) demo_read_files(3) demo_make_cdicts(2) ne, of 1]
  note t2 = get_configs_type_check[OF demo_yaml_files(1) demo_read_files(1) demo_make_cdicts(1) ne, of 1]
  show ?thesis using t1 t2 a1 a2 a3 by blast
qed

text \<open>With no files there is one combination, the empty one, and its configuration is the
  empty mapping, which has no \<open>type\<close>.\<close>

lemma no_files_cdicts:
  "yaml_files [] = Inr []" "read_files E [] = Inr []" "make_cdicts [] = Inr [PDict []]"
  by (simp_all add: yaml_files_def read_files_def make_cdicts_def itertools_product_def
      finaldict_def)

lemma empty_config_not_allowed: "\<not> allowed types (PDict [])"
  by (simp add: allowed_def)

text \<open>
  Claim C6: with an empty list of files, \<open>get_configs\<close> returns the list whose one
  element is the empty mapping.

  As stated this fails when allowed types are given: the one configuration is still the
  empty mapping, but it has no \<open>type\<close>, so the check of the types raises \<open>SystemExit\<close>
  and no list is returned.
\<close>

theorem get_configs_no_files_with_types:
  "snd (get_configs demo_env [] [''svc''] 1) = Inl (type_error demo_env [''svc''])
   \<and> snd (get_configs demo_env [] [''svc''] 1) \<noteq> Inr [PDict []]"
proof -
  have "check_types demo_env [''svc''] [PDict []] = ([], Inl (type_error demo_env [''svc'']))"
    using check_types_first_bad[of "[]" "[''svc'']" "PDict []" demo_env "[]"]
      empty_config_not_allowed by simp
  then show ?thesis
    using get_configs_unfold[OF no_files_cdicts, of demo_env "[''svc'']" 1] by simp
qed

text \<open>
  Claim C6, amended: with an empty list of files, the one resolved configuration is the
  empty mapping; \<open>get_configs\<close> returns the list of it when no allowed types are given
  (the default), and raises \<open>SystemExit\<close> from the check of the types when some are.
\<close>

theorem get_configs_no_files:
  "make_cdicts [] = Inr [PDict []]
   \<and> snd (get_configs E [] types verbose)
       = (if types = [] then Inr [PDict []] else Inl (type_error E types))"
proof (cases "types = []")
  case True
  then show ?thesis
    using get_configs_unfold[OF no_files_cdicts, of E types verbose] no_files_cdicts(3) by simp
next
  case False
  have "check_types E types [PDict []] = ([], Inl (type_error E types))"
    using check_types_first_bad[of "[]" types "PDict []" E "[]"] empty_config_not_allowed by simp
  then show ?thesis
    using get_configs_unfold[OF no_files_cdicts, of E types verbose] False no_files_cdicts(3)
    by simp
qed

theorem get_configs_no_files_witness:
  "snd (get_configs demo_env [] [] 1) = Inr [PDict []]
   \<and> snd (get_configs demo_env [] [''svc''] 1) = Inl (type_error demo_env [''svc''])"
  using get_configs_no_files[of demo_env "[]" 1] get_configs_no_files[of demo_env "[''svc'']" 1]
  by simp

text \<open>
  Claim C7: for two files with one document each, \<open>doc1\<close> and \<open>doc2\<close>, \<open>get_configs\<close>
  returns the one-element list of \<open>rupdate doc1 doc2\<close>: folding from the empty mapping
  gives what merging the two documents directly gives.

  As stated this fails when allowed types are given and the merged configuration's
  \<open>type\<close> is not among them: for \<open>base\<close> and \<open>single\<close> with the allowed type \<open>other\<close> the
  merge returns, and \<open>get_configs\<close> raises \<open>SystemExit\<close> instead of returning the list.
\<close>

theorem two_single_document_files_type_check:
  "snd (get_configs demo_env [''base'', ''single''] [''other''] 1)
     = Inl (type_error demo_env [''other''])
   \<and> rupdate demo_base demo_over1 = Inr demo_cfg1"
proof -
  have r: "read_files demo_env
      [\<lparr>root = [], tail = [''base.yaml'']\<rparr>, \<lparr>root = [], tail = [''single.yaml'']\<rparr>]
     = Inr [[demo_base], [demo_over1]]"
    using demo_load by (simp add: read_files_def)
  have m: "make_cdicts [[demo_base], [demo_over1]] = Inr [demo_cfg1]"
    by (simp add: make_cdicts_def itertools_product_def product_step_def demo_finaldict)
  have na: "\<not> allowed [''other''] demo_cfg1" by (simp add: allowed_def demo_cfg1_def)
  have d: "is_dict demo_cfg1" by (simp add: demo_cfg1_def)
  have "check_types demo_env [''other''] [demo_cfg1] = ([], Inl (type_error demo_env [''other'']))"
    using check_types_first_bad[of "[]" "[''other'']" demo_cfg1 demo_env "[]"] na d by simp
  then show ?thesis
    using get_configs_unfold[OF demo_yaml_files(3) r m, of "[''other'']" 1] demo_rupdate(1) by simp
qed

text \<open>
  Claim C7, amended: for two files with one document each, the first a mapping (with
  distinct keys at every level, as every mapping of Python is), folding from the empty
  mapping has the outcome of merging the two documents directly. Whatever the allowed
  types, a list that \<open>get_configs\<close> returns is the one-element list of what
  \<open>rupdate doc1 doc2\<close> returns; and when that merge returns \<open>c\<close>, \<open>get_configs\<close> returns
  \<open>[c]\<close> if no allowed types are given or the \<open>type\<close> of \<open>c\<close> is allowed, and raises
  \<open>SystemExit\<close> otherwise.
\<close>

theorem two_single_document_files:
  assumes "yaml_files [cfile1, cfile2] = Inr [file1, file2]"
    and "load_all E (str_path file1) = Inr [doc1]"
    and "load_all E (str_path file2) = Inr [doc2]"
    and "is_dict doc1" and "wf doc1"
  shows "rupdate (PDict []) doc1 = Inr doc1
       \<and> finaldict [doc1, doc2] = rupdate doc1 doc2
       \<and> (\<forall>cdicts. snd (get_configs E [cfile1, cfile2] types verbose) = Inr cdicts \<longrightarrow>
             (\<exists>c. rupdate doc1 doc2 = Inr c \<and> cdicts = [c]))
       \<and> (\<forall>c. rupdate doc1 doc2 = Inr c \<longrightarrow>
             snd (get_configs E [cfile1, cfile2] types verbose)
               = (if types = [] \<or> allowed types c then Inr [c] else Inl (type_error E types)))"
proof -
  have e: "rupdate (PDict []) doc1 = Inr doc1" using assms(4,5) by (rule rupdate_empty)
  have f: "finaldict [doc1, doc2] = rupdate doc1 doc2" using assms(4,5) by (rule finaldict_two)
  have r: "read_files E [file1, file2] = Inr [[doc1], [doc2]]"
    using assms(2,3) by (simp add: read_files_def)
  have m: "make_cdicts [[doc1], [doc2]] = map_sum id (\<lambda>c. [c]) (rupdate doc1 doc2)"
    using f by (cases "rupdate doc1 doc2")
      (simp_all add: make_cdicts_def itertools_product_def product_step_def)
  have a: "\<exists>c. rupdate doc1 doc2 = Inr c \<and> cdicts = [c]"
    if "snd (get_configs E [cfile1, cfile2] types verbose) = Inr cdicts" for cdicts
  proof -
    have "make_cdicts [[doc1], [doc2]] = Inr cdicts"
      using get_configs_Inr_cdicts[OF assms(1) r that] .
    then show ?thesis using m by (cases "rupdate doc1 doc2") simp_all
  qed
  have b: "snd (get_configs E [cfile1, cfile2] types verbose)
               = (if types = [] \<or> allowed types c then Inr [c] else Inl (type_error E types))"
    if c: "rupdate doc1 doc2 = Inr c" for c
  proof -
    have mc: "make_cdicts [[doc1], [doc2]] = Inr [c]" using m c by simp
    note u = get_configs_unfold[OF assms(1) r mc, of types verbose]
    from assms(4) obtain items where "doc1 = PDict items" by (cases doc1) auto
    then have d: "is_dict c" using c rupdate_is_dict by blast
    show ?thesis
    proof (cases "types = []")
      case True
      then show ?thesis using u by simp
    next
      case False
      show ?thesis
      proof (cases "allowed types c")
        case True
        then have "check_types E types [c] = ([], Inr ())"
          using check_types_ok[of "[c]" types E] by simp
        then show ?thesis using u False True by simp
      next
        case na: False
        have "check_types E types [c] = ([], Inl (type_error E types))"
          using check_types_first_bad[of "[]" types c E "[]"] na d by simp
        then show ?thesis using u False na by simp
      qed
    qed
  qed
  show ?thesis
  proof (intro conjI allI impI)
    show "rupdate (PDict []) doc1 = Inr doc1" by (rule e)
    show "finaldict [doc1, doc2] = rupdate doc1 doc2" by (rule f)
  next
    fix cdicts assume "snd (get_configs E [cfile1, cfile2] types verbose) = Inr cdicts"
    then show "\<exists>c. rupdate doc1 doc2 = Inr c \<and> cdicts = [c]" by (rule a)
  next
    fix c assume "rupdate doc1 doc2 = Inr c"
    then show "snd (get_configs E [cfile1, cfile2] types verbose)
               = (if types = [] \<or> allowed types c then Inr [c] else Inl (type_error E types))"
      by (rule b)
  qed
qed

theorem two_single_document_files_witness:
  "is_dict demo_base \<and> wf demo_base
   \<and> finaldict [demo_base, demo_over1] = rupdate demo_base demo_over1
   \<and> rupdate demo_base demo_over1 = Inr demo_cfg1
   \<and> snd (get_configs demo_env [''base'', ''single''] [] 1) = Inr [demo_cfg1]
   \<and> snd (get_configs demo_env [''base'', ''single''] [''svc''] 1) = Inr [demo_cfg1]
   \<and> snd (get_configs demo_env [''base'', ''single''] [''other''] 1)
       = Inl (type_error demo_env [''other''])"
proof -
  note t = two_single_document_files[OF demo_yaml_files(3) demo_load(1) demo_load(2) demo_wf]
  note d = t[THEN conjunct2, THEN conjunct2, THEN conjunct2, THEN spec, THEN mp, OF demo_rupdate(1)]
  have al: "allowed [''svc''] demo_cfg1" "\<not> allowed [''other''] demo_cfg1"
    by (simp_all add: allowed_def demo_cfg1_def)
  have t0: "snd (get_configs demo_env [''base'', ''single''] [] 1) = Inr [demo_cfg1]"
    using d[of "[]" 1] by simp
  have t1: "snd (get_configs demo_env [''base'', ''single''] [''svc''] 1) = Inr [demo_cfg1]"
    using d[of "[''svc'']" 1] al(1) by simp
  have t2: "snd (get_configs demo_env [''base'', ''single''] [''other''] 1)
       = Inl (type_error demo_env [''other''])"
    using d[of "[''other'']" 1] al(2) by simp
  have t3: "finaldict [demo_base, demo_over1] = rupdate demo_base demo_over1"
    using t[THEN conjunct2, THEN conjunct1] .
  show ?thesis by (intro conjI demo_wf demo_rupdate(1) t0 t1 t2 t3)
qed

subsection \<open>File names\<close>

text \<open>
  Claim C8: the path that is opened for a file identifier is the identifier with
  \<open>.yaml\<close> appended.

  \<open>with_suffix\<close> replaces a suffix that the name already has: for the identifier
  \<open>run.v2\<close> the path is \<open>run.yaml\<close>, not \<open>run.v2.yaml\<close>. For a name without
  directory and without dot the claim holds (lemma \<open>yaml_files_plain\<close> above).
\<close>

theorem with_suffix_replaces:
  "map_sum id (map str_path) (yaml_files [''run.v2'']) = Inr [''run.yaml'']"
  by (simp add: path_defs)

subsection \<open>Sharing\<close>




subsection \<open>Determinism\<close>

text \<open>
  Claim C10: for given documents in the files, what \<open>get_configs\<close> returns or raises is
  the same in every run, and does not depend on \<open>verbose\<close>, which decides what is
  printed only.

  \<open>get_configs\<close> is a function of the files' contents (\<open>load_all\<close>), the identifiers,
  the allowed types and \<open>verbose\<close>; its second component is the same for any two values
  of \<open>verbose\<close>.
\<close>

theorem get_configs_verbose_independent:
  "snd (get_configs E cfiles types v1) = snd (get_configs E cfiles types v2)"
  by (rule get_configs_verbose_aux)

theorem get_configs_verbose_independent_witness:
  "snd (get_configs demo_env [''base'', ''override''] [''svc''] 0)
     = snd (get_configs demo_env [''base'', ''override''] [''svc''] 2)"
  using get_configs_verbose_independent[of demo_env "[''base'', ''override'']" "[''svc'']" 0 2] .

end
